theory Spec2Isabelle
  imports Main "HOL-Library.Sublist"
begin

section \<open>JavaScript strings\<close>

text \<open>
  A JavaScript string is modelled as a \<^typ>\<open>string\<close>, the list of the bytes of its UTF-8
  encoding; the inputs of interest (URLs, markup) are ASCII. A value that may be \<open>null\<close> or
  \<open>undefined\<close> is an \<^typ>\<open>string option\<close>. The character classes are those of the
  regular expressions in \<open>screenshot.js\<close>.
\<close>

definition is_digit :: "char \<Rightarrow> bool" where
  "is_digit c = (48 \<le> (of_char c :: nat) \<and> (of_char c :: nat) \<le> 57)"

definition is_upper :: "char \<Rightarrow> bool" where
  "is_upper c = (65 \<le> (of_char c :: nat) \<and> (of_char c :: nat) \<le> 90)"

definition is_lower :: "char \<Rightarrow> bool" where
  "is_lower c = (97 \<le> (of_char c :: nat) \<and> (of_char c :: nat) \<le> 122)"

definition is_alnum :: "char \<Rightarrow> bool" where
  \<comment> \<open>the class \<open>[a-zA-Z0-9]\<close>\<close>
  "is_alnum c = (is_lower c \<or> is_upper c \<or> is_digit c)"

definition is_word :: "char \<Rightarrow> bool" where
  \<comment> \<open>the class \<open>\w\<close>\<close>
  "is_word c = (is_alnum c \<or> c = CHR ''_'')"

definition lower_char :: "char \<Rightarrow> char" where
  "lower_char c = (if is_upper c then char_of ((of_char c :: nat) + 32) else c)"

definition ascii_lower :: "string \<Rightarrow> string" where
  \<comment> \<open>the case folding of a regular expression with the flag \<open>i\<close>, on ASCII patterns\<close>
  "ascii_lower s = map lower_char s"

fun toLowerCase :: "string \<Rightarrow> string" where
  \<comment> \<open>\<open>s.toLowerCase()\<close> on the UTF-8 bytes of \<open>s\<close>: besides \<open>A-Z\<close>, two letters get an ASCII
     image, U+212A (Kelvin sign, to \<open>k\<close>) and U+0130 (to \<open>i\<close> and the combining dot U+0307); any
     other letter it changes keeps all its bytes outside ASCII and is left as it is\<close>
  "toLowerCase [] = []"
| "toLowerCase (a # cs) =
     (if prefix [CHR 0xE2, CHR 0x84, CHR 0xAA] (a # cs) then CHR ''k'' # toLowerCase (drop 2 cs)
      else if prefix [CHR 0xC4, CHR 0xB0] (a # cs)
        then [CHR ''i'', CHR 0xCC, CHR 0x87] @ toLowerCase (drop 1 cs)
      else lower_char a # toLowerCase cs)"

fun str_includes :: "string \<Rightarrow> string \<Rightarrow> bool" where
  \<comment> \<open>\<open>s.includes(pat)\<close>\<close>
  "str_includes [] pat = (pat = [])"
| "str_includes (c # cs) pat = (prefix pat (c # cs) \<or> str_includes cs pat)"

definition truthy :: "string option \<Rightarrow> bool" where
  \<comment> \<open>a string-valued expression used as a condition: \<open>null\<close>, \<open>undefined\<close> and \<open>''\<close> are falsy\<close>
  "truthy v = (case v of None \<Rightarrow> False | Some s \<Rightarrow> s \<noteq> [])"

definition replaceAll :: "char \<Rightarrow> string \<Rightarrow> string \<Rightarrow> string" where
  \<comment> \<open>\<open>s.replace(/c/g, rep)\<close> for a one-character pattern\<close>
  "replaceAll c rep s = concat (map (\<lambda>x. if x = c then rep else [x]) s)"

fun replace_first :: "string \<Rightarrow> string \<Rightarrow> string \<Rightarrow> string" where
  \<comment> \<open>\<open>s.replace(pat, rep)\<close> for a string pattern: the first occurrence only\<close>
  "replace_first pat rep [] = (if pat = [] then rep else [])"
| "replace_first pat rep (c # cs) =
     (if prefix pat (c # cs) then rep @ drop (length pat) (c # cs)
      else c # replace_first pat rep cs)"

definition last_segment :: "string \<Rightarrow> string" where
  \<comment> \<open>\<open>s.split('/').pop()\<close>\<close>
  "last_segment s = rev (takeWhile (\<lambda>c. c \<noteq> CHR ''/'') (rev s))"

definition digit :: "nat \<Rightarrow> char" where
  "digit d = char_of (48 + d)"

fun show_nat :: "nat \<Rightarrow> string" where
  \<comment> \<open>the decimal numeral a non-negative integer is interpolated as\<close>
  "show_nat n = (if n < 10 then [digit n] else show_nat (n div 10) @ [digit (n mod 10)])"

declare show_nat.simps [simp del]

section \<open>Platform detection\<close>

datatype platform =
  Twitter | Macrumors | Threads | Bluesky | Mastodon | Youtube | Tiktok | Article | Unknown

fun tag :: "platform \<Rightarrow> string" where
  \<comment> \<open>the string \<open>detectPlatform\<close> returns for each platform\<close>
  "tag Twitter = ''twitter''"
| "tag Macrumors = ''macrumors''"
| "tag Threads = ''threads''"
| "tag Bluesky = ''bluesky''"
| "tag Mastodon = ''mastodon''"
| "tag Youtube = ''youtube''"
| "tag Tiktok = ''tiktok''"
| "tag Article = ''article''"
| "tag Unknown = ''unknown''"

fun digits_then :: "string \<Rightarrow> bool" where
  \<comment> \<open>\<open>\d+\<close> matches at the start of the string\<close>
  "digits_then [] = False"
| "digits_then (c # cs) = is_digit c"

fun handle_then :: "string \<Rightarrow> bool" where
  \<comment> \<open>the rest of \<open>[\w]+\/\d+\<close> matches once at least one word character has been read\<close>
  "handle_then [] = False"
| "handle_then (c # cs) =
     (if is_word c then handle_then cs else c = CHR ''/'' \<and> digits_then cs)"

fun mastodon_path_at :: "string \<Rightarrow> bool" where
  \<comment> \<open>\<open>\/@[\w]+\/\d+\<close> matches at the start of the string\<close>
  "mastodon_path_at (a # b # c # cs) =
     (a = CHR ''/'' \<and> b = CHR ''@'' \<and> is_word c \<and> handle_then cs)"
| "mastodon_path_at _ = False"

fun mastodon_path :: "string \<Rightarrow> bool" where
  \<comment> \<open>\<open>s.match(/\/@[\w]+\/\d+/)\<close> is not null\<close>
  "mastodon_path [] = False"
| "mastodon_path (c # cs) = (mastodon_path_at (c # cs) \<or> mastodon_path cs)"

definition detectPlatform :: "string \<Rightarrow> platform" where
  "detectPlatform url =
     (let urlLower = toLowerCase url in
      if str_includes urlLower ''x.com'' \<or> str_includes urlLower ''twitter.com'' then Twitter
      else if str_includes urlLower ''forums.macrumors.com'' then Macrumors
      else if str_includes urlLower ''threads.net'' then Threads
      else if str_includes urlLower ''bsky.app'' then Bluesky
      else if (str_includes urlLower ''mastodon.social'' \<or> str_includes urlLower ''zeppelin.flights''
               \<or> str_includes urlLower ''@'') \<and> mastodon_path urlLower then Mastodon
      else if str_includes urlLower ''youtube.com'' \<or> str_includes urlLower ''youtu.be'' then Youtube
      else if str_includes urlLower ''tiktok.com'' then Tiktok
      else if str_includes urlLower ''cultofmac.com'' \<or> str_includes urlLower ''newsletters.'' then Article
      else Unknown)"

section \<open>Artifact names\<close>

definition urlHash :: "string \<Rightarrow> string" where
  \<comment> \<open>\<open>url.split('/').pop().replace(/[^a-zA-Z0-9]/g, '').slice(0, 20)\<close>\<close>
  "urlHash url = take 20 (filter is_alnum (last_segment url))"

definition generateFilename :: "nat \<Rightarrow> string \<Rightarrow> platform \<Rightarrow> string" where
  \<comment> \<open>the first argument is the reading of \<open>Date.now()\<close>, in milliseconds\<close>
  "generateFilename now url p =
     tag p @ ''-'' @ urlHash url @ ''-'' @ show_nat now @ ''.png''"

definition baseFilename :: "nat \<Rightarrow> string \<Rightarrow> platform \<Rightarrow> string" where
  \<comment> \<open>\<open>generateFilename(url, platform).replace('.png', '')\<close> in \<open>processUrl\<close>\<close>
  "baseFilename now url p = replace_first ''.png'' [] (generateFilename now url p)"

section \<open>Image materialisation\<close>

text \<open>
  \<open>imageToBase64\<close> and \<open>downloadImage\<close> wrap one \<open>protocol.get\<close> request in a promise.
  The network is a function from a URL to what the request does:
  \<^item> \<open>Throws\<close>: \<open>protocol.get\<close> throws synchronously (a string that is no absolute URL of
    the protocol chosen); inside a promise executor this rejects the promise;
  \<^item> \<open>Request_error\<close>: the request emits \<open>error\<close> (no connection);
  \<^item> \<open>Response\<close>: the callback runs with a response: its status code, its
    \<open>location\<close> and \<open>content-type\<close> headers, the bytes of its body, and whether the
    response stream emits \<open>error\<close> instead of \<open>end\<close>.
  The state records the requests issued and the files created, in order. A promise that
  is never settled (an endless chain of redirects, an event nobody listens to) is the
  value \<open>None\<close>.
\<close>

datatype error = Error (message: string)

datatype 'a promise = Resolved 'a | Rejected error

record response =
  statusCode :: nat
  location :: "string option"
  contentType :: "string option"
  body :: string
  aborted :: bool

datatype get_result = Throws error | Request_error | Response response

type_synonym network = "string \<Rightarrow> get_result"

record io =
  requests :: "string list"
  writes :: "string list"

definition request :: "string \<Rightarrow> io \<Rightarrow> io" where
  "request url s = s\<lparr>requests := requests s @ [url]\<rparr>"

definition is_redirect :: "response \<Rightarrow> bool" where
  \<comment> \<open>\<open>res.statusCode >= 300 && res.statusCode < 400 && res.headers.location\<close>\<close>
  "is_redirect res = (300 \<le> statusCode res \<and> statusCode res < 400 \<and> truthy (location res))"

definition data_uri :: "(string \<Rightarrow> string) \<Rightarrow> response \<Rightarrow> string" where
  \<comment> \<open>the first argument is \<open>buffer.toString('base64')\<close>\<close>
  "data_uri base64 res =
     ''data:'' @ (if truthy (contentType res) then the (contentType res) else ''image/jpeg'')
       @ '';base64,'' @ base64 (body res)"

partial_function (option) imageToBase64 ::
  "network \<Rightarrow> (string \<Rightarrow> string) \<Rightarrow> string option \<Rightarrow> io \<Rightarrow> (string option promise \<times> io) option"
where
  "imageToBase64 net base64 url s =
     (case url of
        None \<Rightarrow> Some (Resolved None, s)
      | Some u \<Rightarrow>
          if u = [] then Some (Resolved None, s)
          else (case net u of
              Throws e \<Rightarrow> Some (Rejected e, s)
            | Request_error \<Rightarrow> Some (Resolved None, request u s)
            | Response res \<Rightarrow>
                if is_redirect res then imageToBase64 net base64 (location res) (request u s)
                else if aborted res then Some (Resolved None, request u s)
                else Some (Resolved (Some (data_uri base64 res)), request u s)))"

partial_function (option) downloadImage ::
  "network \<Rightarrow> (string \<Rightarrow> bool) \<Rightarrow> string option \<Rightarrow> string \<Rightarrow> io \<Rightarrow> (string option promise \<times> io) option"
where
  \<comment> \<open>the second argument tells whether the write stream on a path finishes (or emits \<open>error\<close>);
     the response stream is piped into it, and a failure of the response stream itself has
     no listener, so the promise is not settled then\<close>
  "downloadImage net writable url filepath s =
     (case url of
        None \<Rightarrow> Some (Resolved None, s)
      | Some u \<Rightarrow>
          if u = [] then Some (Resolved None, s)
          else (case net u of
              Throws e \<Rightarrow> Some (Rejected e, s)
            | Request_error \<Rightarrow> Some (Resolved None, request u s)
            | Response res \<Rightarrow>
                if is_redirect res then downloadImage net writable (location res) filepath (request u s)
                else if statusCode res \<noteq> 200 then Some (Resolved None, request u s)
                else if aborted res then None
                else if writable filepath
                  then Some (Resolved (Some filepath), (request u s)\<lparr>writes := writes s @ [filepath]\<rparr>)
                else Some (Resolved None, request u s)))"

subsection \<open>The inline images of a payload\<close>

fun inline_images ::
  "network \<Rightarrow> (string \<Rightarrow> string) \<Rightarrow> string option list \<Rightarrow> string list \<Rightarrow> io
     \<Rightarrow> (string list promise \<times> io) option"
where
  \<comment> \<open>\<open>for (const imgUrl of urls) { const base64 = await imageToBase64(imgUrl);
     if (base64) imagesBase64.push(base64); }\<close>, from \<open>imagesBase64\<close> so far\<close>
  "inline_images net base64 [] imagesBase64 s = Some (Resolved imagesBase64, s)"
| "inline_images net base64 (imgUrl # rest) imagesBase64 s =
     (case imageToBase64 net base64 imgUrl s of
        None \<Rightarrow> None
      | Some (Rejected e, s') \<Rightarrow> Some (Rejected e, s')
      | Some (Resolved b, s') \<Rightarrow>
          inline_images net base64 rest
            (if truthy b then imagesBase64 @ [the b] else imagesBase64) s')"

definition js_take :: "nat \<Rightarrow> 'a list \<Rightarrow> 'a list" where
  \<comment> \<open>\<open>xs.slice(0, n)\<close>\<close>
  "js_take n xs = take n xs"

definition twitter_images ::
  "network \<Rightarrow> (string \<Rightarrow> string) \<Rightarrow> string list \<Rightarrow> io \<Rightarrow> (string list promise \<times> io) option" where
  \<comment> \<open>\<open>scrapeTwitter\<close> (and each tweet of \<open>scrapeTwitterThread\<close>): \<open>data.images.slice(0, 4)\<close>\<close>
  "twitter_images net base64 imgs s = inline_images net base64 (map Some (js_take 4 imgs)) [] s"

definition macrumors_images ::
  "network \<Rightarrow> (string \<Rightarrow> string) \<Rightarrow> string list \<Rightarrow> io \<Rightarrow> (string list promise \<times> io) option" where
  \<comment> \<open>\<open>scrapeMacrumors\<close>: \<open>images.slice(0, 4)\<close>, commented \<open>Max 4 images\<close>\<close>
  "macrumors_images net base64 imgs s = inline_images net base64 (map Some (js_take 4 imgs)) [] s"

record embed_image =
  fullsize :: "string option"
  thumb :: "string option"

definition bluesky_image_urls :: "embed_image list option \<Rightarrow> string option \<Rightarrow> string option list" where
  \<comment> \<open>\<open>formatBlueskyPost\<close>: \<open>post.embed?.images\<close> and \<open>post.embed?.external?.thumb\<close>\<close>
  "bluesky_image_urls embed_images external_thumb =
     (case embed_images of
        None \<Rightarrow> []
      | Some imgs \<Rightarrow> map (\<lambda>img. if truthy (fullsize img) then fullsize img else thumb img) imgs)
     @ (if truthy external_thumb then [external_thumb] else [])"

definition bluesky_images ::
  "network \<Rightarrow> (string \<Rightarrow> string) \<Rightarrow> embed_image list option \<Rightarrow> string option \<Rightarrow> io
     \<Rightarrow> (string list promise \<times> io) option" where
  "bluesky_images net base64 embed_images external_thumb s =
     inline_images net base64 (bluesky_image_urls embed_images external_thumb) [] s"

record media_attachment =
  media_type :: string
  media_url :: "string option"
  preview_url :: "string option"

definition mastodon_image_urls :: "media_attachment list option \<Rightarrow> string option list" where
  \<comment> \<open>\<open>scrapeMastodon\<close>: the loop over \<open>data.media_attachments\<close>\<close>
  "mastodon_image_urls media_attachments =
     (case media_attachments of
        None \<Rightarrow> []
      | Some ms \<Rightarrow>
          concat (map (\<lambda>media.
            if media_type media = ''image'' \<or> media_type media = ''gifv''
              then [if truthy (media_url media) then media_url media else preview_url media]
            else if media_type media = ''video'' then [preview_url media]
            else []) ms))"

definition mastodon_images ::
  "network \<Rightarrow> (string \<Rightarrow> string) \<Rightarrow> media_attachment list option \<Rightarrow> io
     \<Rightarrow> (string list promise \<times> io) option" where
  "mastodon_images net base64 media_attachments s =
     inline_images net base64 (mastodon_image_urls media_attachments) [] s"

section \<open>The pipeline of one URL\<close>

text \<open>
  \<open>processUrl\<close> runs, in order: a scraper, a template, the screenshot, one download per
  original image, and the write of the metadata file. What a step does is a value or an
  \<^typ>\<open>error\<close> (thrown, or the rejection of the promise awaited); an awaited step may
  also never settle, which is \<open>None\<close>, and then \<open>processUrl\<close> never settles either. The
  downloads are those of \<open>downloadImage\<close> above, on the network and the file system of the
  environment. The payload type \<open>'d\<close> is what the scraper returns. The second component
  of every result is the list of files created, in order. Console output is left out.
  Between the awaits, \<open>getImageExtension\<close> throws on an entry that is no string and the
  construction of the metadata can throw; the other expressions of the \<open>try\<close> block
  (\<open>data.author?.name\<close>, \<open>generateFilename\<close>, \<open>path.join\<close>) do not throw on the object
  that the template has just read.
\<close>

record options =
  thread :: bool
  bento :: bool

datatype scraper =
  ScrapeTwitter | ScrapeTwitterThread | ScrapeMacrumors | ScrapeBluesky | ScrapeMastodon
  | ScrapeThreads | ScrapeYouTube | ScrapeTikTok | ScrapeArticle

datatype template =
  TwitterCard | TwitterThreadCard | MacrumorsCard | BlueskyCard | MastodonCard
  | YouTubeCard | TikTokCard | ArticleCard

datatype result =
  Succeeded (result_url: string) (cardFilename: string) (imageFilenames: "string list")
    (metadataFilename: string) (result_author: string)
| Failed (result_url: string) (error_message: string)

fun success :: "result \<Rightarrow> bool" where
  "success (Succeeded u c imgs m a) = True"
| "success (Failed u e) = False"

record 'd stages =
  scrape :: "scraper \<Rightarrow> string \<Rightarrow> (error + 'd) option"
  render :: "template \<Rightarrow> bool \<Rightarrow> 'd \<Rightarrow> error + string"
  author_name :: "'d \<Rightarrow> string option"
  siteName :: "'d \<Rightarrow> string option"
  originalImageUrls :: "'d \<Rightarrow> string option list option"
  date_now :: "string \<Rightarrow> int \<Rightarrow> nat"
  generateScreenshot :: "string \<Rightarrow> string \<Rightarrow> (error + unit) option"
  network_of :: network
  fs_writable :: "string \<Rightarrow> bool"
  metadata_json :: "'d \<Rightarrow> string \<Rightarrow> string \<Rightarrow> string list \<Rightarrow> error + string"
  writeFileSync :: "string \<Rightarrow> string \<Rightarrow> error + unit"

text \<open>
  \<^item> \<open>scrape\<close>: the scraper that the \<open>switch\<close> of \<open>processUrl\<close> selects, awaited;
  \<^item> \<open>render\<close>: the template it selects (standard, or bento when the flag is set), a
    synchronous call;
  \<^item> \<open>author_name\<close>, \<open>siteName\<close>, \<open>originalImageUrls\<close>: \<open>data.author?.name\<close>,
    \<open>data.siteName\<close> and \<open>data.originalImageUrls\<close> of the object \<open>data\<close> built from the
    payload; an entry of the list may be \<open>undefined\<close> or \<open>null\<close>, as the Bluesky and
    Mastodon scrapers can leave it;
  \<^item> \<open>date_now\<close>: the reading of \<open>Date.now()\<close> in \<open>generateFilename\<close>, for the URL at this
    index of the batch;
  \<^item> \<open>generateScreenshot\<close>: \<open>generateScreenshot(html, path)\<close>, awaited; the card exists
    afterwards when the outcome is a value;
  \<^item> \<open>network_of\<close>, \<open>fs_writable\<close>: the network and the file system that
    \<open>downloadImage\<close> meets;
  \<^item> \<open>metadata_json\<close>: \<open>JSON.stringify(buildMetadataPayload(...), null, 2)\<close>;
  \<^item> \<open>writeFileSync\<close>: \<open>fs.writeFileSync(path, text)\<close>, a synchronous call.
\<close>

definition path_join :: "string \<Rightarrow> string \<Rightarrow> string" where
  \<comment> \<open>\<open>path.join(outputDir, name)\<close> for a normalised directory and a plain file name\<close>
  "path_join dir name = dir @ ''/'' @ name"

definition basename :: "string \<Rightarrow> string" where
  \<comment> \<open>\<open>path.basename(p)\<close>\<close>
  "basename p = last_segment p"

definition image_exts :: "string list" where
  \<comment> \<open>the alternatives of \<open>(jpg|jpeg|png|gif|webp)\<close>, in order\<close>
  "image_exts = [''jpg'', ''jpeg'', ''png'', ''gif'', ''webp'']"

fun ext_after :: "string \<Rightarrow> string \<Rightarrow> string option" where
  \<comment> \<open>the group of the leftmost match of \<open>/lit(jpg|jpeg|png|gif|webp)/i\<close>, in lower case\<close>
  "ext_after lit [] = None"
| "ext_after lit (c # cs) =
     (if prefix lit (ascii_lower (c # cs)) then
        (case find (\<lambda>e. prefix e (ascii_lower (drop (length lit) (c # cs)))) image_exts of
           Some e \<Rightarrow> Some e
         | None \<Rightarrow> ext_after lit cs)
      else ext_after lit cs)"

definition getImageExtension :: "string option \<Rightarrow> error + string" where
  \<comment> \<open>\<open>url.match\<close> throws a \<open>TypeError\<close> when \<open>url\<close> is \<open>undefined\<close> or \<open>null\<close>\<close>
  "getImageExtension url =
     (case url of
        None \<Rightarrow> Inl (Error ''Cannot read properties of undefined (reading 'match')'')
      | Some u \<Rightarrow>
          (case ext_after ''.'' u of
             Some e \<Rightarrow> Inr e
           | None \<Rightarrow> (case ext_after ''format='' u of Some e \<Rightarrow> Inr e | None \<Rightarrow> Inr ''jpg'')))"

definition no_io :: io where
  "no_io = \<lparr> requests = [], writes = [] \<rparr>"

fun download_all ::
  "'d stages \<Rightarrow> string \<Rightarrow> string \<Rightarrow> string option list \<Rightarrow> nat \<Rightarrow> string list \<Rightarrow> string list
     \<Rightarrow> ((error + string list) \<times> string list) option"
where
  \<comment> \<open>the loop over \<open>data.originalImageUrls\<close> from index \<open>i\<close>, with \<open>downloadedImages\<close> and
     the files created so far\<close>
  "download_all st outputDir base [] i downloadedImages ws = Some (Inr downloadedImages, ws)"
| "download_all st outputDir base (imgUrl # rest) i downloadedImages ws =
     (case getImageExtension imgUrl of
        Inl e \<Rightarrow> Some (Inl e, ws)
      | Inr ext \<Rightarrow>
          (let imgFilename =
                 path_join outputDir (base @ ''-image-'' @ show_nat (i + 1) @ ''.'' @ ext)
           in case downloadImage (network_of st) (fs_writable st) imgUrl imgFilename no_io of
                None \<Rightarrow> None
              | Some (Rejected e, s) \<Rightarrow> Some (Inl e, ws)
              | Some (Resolved r, s) \<Rightarrow>
                  if truthy r
                  then download_all st outputDir base rest (i + 1)
                         (downloadedImages @ [basename imgFilename]) (ws @ writes s)
                  else download_all st outputDir base rest (i + 1) downloadedImages
                         (ws @ writes s)))"

fun dispatch :: "platform \<Rightarrow> options \<Rightarrow> (scraper \<times> template) option" where
  \<comment> \<open>the \<open>switch (platform)\<close> of \<open>processUrl\<close>; \<open>None\<close> is its \<open>default\<close> branch\<close>
  "dispatch Twitter opts =
     (if thread opts then Some (ScrapeTwitterThread, TwitterThreadCard)
      else Some (ScrapeTwitter, TwitterCard))"
| "dispatch Macrumors opts = Some (ScrapeMacrumors, MacrumorsCard)"
| "dispatch Bluesky opts = Some (ScrapeBluesky, BlueskyCard)"
| "dispatch Mastodon opts = Some (ScrapeMastodon, MastodonCard)"
| "dispatch Threads opts = Some (ScrapeThreads, TwitterCard)"
| "dispatch Youtube opts = Some (ScrapeYouTube, YouTubeCard)"
| "dispatch Tiktok opts = Some (ScrapeTikTok, TikTokCard)"
| "dispatch Article opts = Some (ScrapeArticle, ArticleCard)"
| "dispatch Unknown opts = None"

definition author_label :: "'d stages \<Rightarrow> 'd \<Rightarrow> string" where
  \<comment> \<open>\<open>data.author?.name || data.siteName || 'Unknown'\<close>\<close>
  "author_label st d =
     (if truthy (author_name st d) then the (author_name st d)
      else if truthy (siteName st d) then the (siteName st d)
      else ''Unknown'')"

definition card_path :: "'d stages \<Rightarrow> platform \<Rightarrow> string \<Rightarrow> int \<Rightarrow> string \<Rightarrow> string" where
  \<comment> \<open>\<open>cardFilename\<close>\<close>
  "card_path st platform url index outputDir =
     path_join outputDir (baseFilename (date_now st url index) url platform @ ''-card.png'')"

definition metadata_path :: "'d stages \<Rightarrow> platform \<Rightarrow> string \<Rightarrow> int \<Rightarrow> string \<Rightarrow> string" where
  \<comment> \<open>\<open>metadataFilename\<close>\<close>
  "metadata_path st platform url index outputDir =
     path_join outputDir (baseFilename (date_now st url index) url platform @ ''-metadata.json'')"

definition downloads ::
  "'d stages \<Rightarrow> platform \<Rightarrow> string \<Rightarrow> int \<Rightarrow> string \<Rightarrow> 'd
     \<Rightarrow> ((error + string list) \<times> string list) option"
where
  \<comment> \<open>the download loop, entered after the card was written; a missing or empty
     \<open>data.originalImageUrls\<close> skips it\<close>
  "downloads st platform url index outputDir d =
     download_all st outputDir (baseFilename (date_now st url index) url platform)
       (case originalImageUrls st d of None \<Rightarrow> [] | Some urls \<Rightarrow> urls)
       0 [] [card_path st platform url index outputDir]"

definition capture ::
  "'d stages \<Rightarrow> platform \<Rightarrow> string \<Rightarrow> int \<Rightarrow> string \<Rightarrow> options
     \<Rightarrow> ((error + result) \<times> string list) option"
where
  \<comment> \<open>the body of the \<open>try\<close> block of \<open>processUrl\<close>: \<open>Inl\<close> is what it throws, \<open>None\<close> an
     \<open>await\<close> that never returns\<close>
  "capture st platform url index outputDir opts =
     (case dispatch platform opts of
        None \<Rightarrow> Some (Inl (Error ''Platform not implemented''), [])
      | Some (scraper, template) \<Rightarrow>
     (case scrape st scraper url of
        None \<Rightarrow> None
      | Some (Inl e) \<Rightarrow> Some (Inl e, [])
      | Some (Inr d) \<Rightarrow>
     (case render st template (bento opts) d of
        Inl e \<Rightarrow> Some (Inl e, [])
      | Inr html \<Rightarrow>
     (case generateScreenshot st html (card_path st platform url index outputDir) of
        None \<Rightarrow> None
      | Some (Inl e) \<Rightarrow> Some (Inl e, [])
      | Some (Inr _) \<Rightarrow>
     (case downloads st platform url index outputDir d of
        None \<Rightarrow> None
      | Some (Inl e, ws) \<Rightarrow> Some (Inl e, ws)
      | Some (Inr downloadedImages, ws) \<Rightarrow>
     (case metadata_json st d url (card_path st platform url index outputDir)
             downloadedImages of
        Inl e \<Rightarrow> Some (Inl e, ws)
      | Inr json \<Rightarrow>
     (case writeFileSync st (metadata_path st platform url index outputDir) json of
        Inl e \<Rightarrow> Some (Inl e, ws)
      | Inr _ \<Rightarrow>
          Some (Inr (Succeeded url (basename (card_path st platform url index outputDir))
                       downloadedImages
                       (basename (metadata_path st platform url index outputDir))
                       (author_label st d)),
                ws @ [metadata_path st platform url index outputDir]))))))))"

definition processUrl ::
  "'d stages \<Rightarrow> string \<Rightarrow> int \<Rightarrow> nat \<Rightarrow> string \<Rightarrow> options
     \<Rightarrow> (result promise \<times> string list) option"
where
  \<comment> \<open>\<open>tot\<close> is the parameter \<open>total\<close>, read by the log prefix only; an \<open>async\<close> function
     rejects exactly when its body throws, and the \<open>catch\<close> clause returns
     the failure object\<close>
  "processUrl st url index tot outputDir opts =
     (let platform = detectPlatform url in
      if platform = Unknown then Some (Resolved (Failed url ''Unknown platform''), [])
      else (case capture st platform url index outputDir opts of
              None \<Rightarrow> None
            | Some (Inl e, ws) \<Rightarrow> Some (Resolved (Failed url (message e)), ws)
            | Some (Inr r, ws) \<Rightarrow> Some (Resolved r, ws)))"

section \<open>The batch scheduler\<close>

definition js_slice :: "'a list \<Rightarrow> int \<Rightarrow> int \<Rightarrow> 'a list" where
  \<comment> \<open>\<open>xs.slice(start, end)\<close>: a negative index counts from the end\<close>
  "js_slice xs start end =
     (let len = int (length xs);
          k = (if start < 0 then max (len + start) 0 else min start len);
          final = (if end < 0 then max (len + end) 0 else min end len)
      in take (nat (final - k)) (drop (nat k) xs))"

fun promise_all :: "'a promise option list \<Rightarrow> 'a list promise option" where
  \<comment> \<open>\<open>Promise.all\<close>: rejected once a promise is rejected, else pending while a promise is
     pending, else the values in the order of the promises\<close>
  "promise_all [] = Some (Resolved [])"
| "promise_all (Some (Rejected e) # ps) = Some (Rejected e)"
| "promise_all (None # ps) =
     (case promise_all ps of Some (Rejected e) \<Rightarrow> Some (Rejected e) | _ \<Rightarrow> None)"
| "promise_all (Some (Resolved v) # ps) =
     (case promise_all ps of
        None \<Rightarrow> None
      | Some (Rejected e) \<Rightarrow> Some (Rejected e)
      | Some (Resolved vs) \<Rightarrow> Some (Resolved (v # vs)))"

definition run_batch ::
  "'d stages \<Rightarrow> string list \<Rightarrow> string \<Rightarrow> int \<Rightarrow> options \<Rightarrow> int
     \<Rightarrow> (result promise \<times> (int \<times> string) list) option list"
where
  \<comment> \<open>\<open>batch.map((url, batchIndex) => processUrl(url, i + batchIndex, ...))\<close> for the wave
     that starts at \<open>i\<close>; each file created is paired with the index of its item\<close>
  "run_batch st urls outputDir concurrency opts i =
     (let batch = js_slice urls i (i + concurrency) in
      map (\<lambda>(batchIndex, url).
             (let index = i + int batchIndex in
              map_option (\<lambda>r. (fst r, map (Pair index) (snd r)))
                (processUrl st url index (length urls) outputDir opts)))
          (zip [0..<length batch] batch))"

definition batch_writes ::
  "(result promise \<times> (int \<times> string) list) option list \<Rightarrow> (int \<times> string) list" where
  \<comment> \<open>the files created by the items of a wave that settled\<close>
  "batch_writes rs = concat (map (\<lambda>r. case r of None \<Rightarrow> [] | Some x \<Rightarrow> snd x) rs)"

partial_function (option) batch_loop ::
  "'d stages \<Rightarrow> string list \<Rightarrow> string \<Rightarrow> int \<Rightarrow> options \<Rightarrow> int \<Rightarrow> result list
     \<Rightarrow> (int \<times> string) list \<Rightarrow> string list list
     \<Rightarrow> (result list promise \<times> (int \<times> string) list \<times> string list list) option"
where
  \<comment> \<open>\<open>for (let i = ...; i < urls.length; i += concurrency)\<close>, from \<open>i\<close> with \<open>results\<close>; the
     last argument lists the value of \<open>batch\<close> in every iteration so far\<close>
  "batch_loop st urls outputDir concurrency opts i results ws launched =
     (if i < int (length urls) then
        (case promise_all (map (map_option fst) (run_batch st urls outputDir concurrency opts i)) of
           None \<Rightarrow> None
         | Some (Rejected e) \<Rightarrow>
             Some (Rejected e,
                   ws @ batch_writes (run_batch st urls outputDir concurrency opts i),
                   launched @ [js_slice urls i (i + concurrency)])
         | Some (Resolved batchResults) \<Rightarrow>
             batch_loop st urls outputDir concurrency opts (i + concurrency)
               (results @ batchResults)
               (ws @ batch_writes (run_batch st urls outputDir concurrency opts i))
               (launched @ [js_slice urls i (i + concurrency)]))
      else Some (Resolved results, ws, launched))"

definition processInParallel ::
  "'d stages \<Rightarrow> string list \<Rightarrow> string \<Rightarrow> int \<Rightarrow> options
     \<Rightarrow> (result list promise \<times> (int \<times> string) list \<times> string list list) option"
where
  \<comment> \<open>the result, the files created with the index of their item, and the batches
     launched, in order\<close>
  "processInParallel st urls outputDir concurrency opts =
     batch_loop st urls outputDir concurrency opts 0 [] [] []"

fun waves :: "nat \<Rightarrow> 'a list \<Rightarrow> 'a list list" where
  \<comment> \<open>the specification's waves: consecutive groups of at most \<open>c\<close> requests\<close>
  "waves c [] = []"
| "waves c (x # xs) = (if c = 0 then [] else take c (x # xs) # waves c (drop c (x # xs)))"

subsection \<open>An example environment\<close>

datatype stage = Extraction | Rendering | Rasterization | Media | Metadata | Writing

definition example_stages :: "stage option \<Rightarrow> network \<Rightarrow> string stages" where
  \<comment> \<open>every stage succeeds, but for the one given, which throws or rejects; the downloads
     meet the network given\<close>
  "example_stages failing reached =
     \<lparr> scrape = (\<lambda>scraper url.
          if failing = Some Extraction then Some (Inl (Error ''Invalid Twitter URL''))
          else Some (Inr ''payload'')),
       render = (\<lambda>template flag d.
          if failing = Some Rendering then Inl (Error ''Cannot read properties of undefined'')
          else Inr ''<html></html>''),
       author_name = (\<lambda>d. Some ''Alice''),
       siteName = (\<lambda>d. None),
       originalImageUrls = (\<lambda>d.
          if failing = Some Media then Some [None]
          else Some [Some ''https://pbs.twimg.com/media/a?format=png'']),
       date_now = (\<lambda>url index. 1706472000000),
       generateScreenshot = (\<lambda>html path.
          if failing = Some Rasterization then Some (Inl (Error ''Timeout 30000ms exceeded''))
          else Some (Inr ())),
       network_of = reached,
       fs_writable = (\<lambda>path. True),
       metadata_json = (\<lambda>d url cardFilename downloaded.
          if failing = Some Metadata then Inl (Error ''Converting circular structure to JSON'')
          else Inr ''{}''),
       writeFileSync = (\<lambda>path json.
          if failing = Some Writing then Inl (Error ''ENOSPC: no space left on device'')
          else Inr ()) \<rparr>"

definition example_options :: options where
  "example_options = \<lparr> thread = False, bento = False \<rparr>"

definition example_urls :: "string list" where
  "example_urls =
     [''https://x.com/alice/status/1'', ''https://example.com/post/2'',
      ''https://bsky.app/profile/carol.bsky.social/post/3'']"

subsection \<open>What the scheduler is to compute\<close>

definition item ::
  "'d stages \<Rightarrow> string list \<Rightarrow> string \<Rightarrow> options \<Rightarrow> nat
     \<Rightarrow> (result promise \<times> string list) option" where
  \<comment> \<open>the pipeline run on the \<open>k\<close>-th URL of the input, as its \<open>k\<close>-th item\<close>
  "item st urls outputDir opts k =
     processUrl st (urls ! k) (int k) (length urls) outputDir opts"

definition item_writes ::
  "'d stages \<Rightarrow> string list \<Rightarrow> string \<Rightarrow> options \<Rightarrow> nat \<Rightarrow> (int \<times> string) list" where
  "item_writes st urls outputDir opts k =
     (case item st urls outputDir opts k of
        None \<Rightarrow> []
      | Some r \<Rightarrow> map (Pair (int k)) (snd r))"

definition settles :: "'d stages \<Rightarrow> string list \<Rightarrow> string \<Rightarrow> options \<Rightarrow> bool" where
  \<comment> \<open>the pipeline of every URL of the input settles\<close>
  "settles st urls outputDir opts =
     list_all (\<lambda>k. item st urls outputDir opts k \<noteq> None) [0..<length urls]"
section \<open>Templates\<close>

text \<open>
  A template literal is the concatenation of its literal text, line breaks and
  indentation included, and of its interpolated values. The templates are functions of
  the payload; two things they read from elsewhere are parameters: \<open>css\<close>, the text of
  the \<open>style\<close> element (a literal without payload data), and \<open>formatRelativeTime\<close>,
  which reads the clock. The middle dot of the thread template is its two UTF-8 bytes.
\<close>

definition escapeHtml :: "string \<Rightarrow> string" where
  "escapeHtml text =
     (if text = [] then []
      else replaceAll (CHR 0x27) ''&#039;''
            (replaceAll (CHR 0x22) ''&quot;''
              (replaceAll CHR ''>'' ''&gt;''
                (replaceAll CHR ''<'' ''&lt;''
                  (replaceAll CHR ''&'' ''&amp;'' text)))))"

record author_info =
  name :: string
  handle :: string
  title :: string
  avatar :: "string option"

record post =
  author :: author_info
  content :: string
  images :: "string list"
  postNumber :: string
  timestamp :: string
  reactions :: string
  isMainTweet :: bool

text \<open>
  A \<^typ>\<open>post\<close> has the fields the thread and forum templates read: \<open>avatar\<close> and
  \<open>images\<close> are the inline data URIs; a thread is the list \<open>threadData.tweets\<close>.
\<close>

definition connector_line :: string where
  "connector_line = ''<div class=\"connector-line\"></div>''"

definition thread_imagesHtml :: "post \<Rightarrow> string" where
  \<comment> \<open>\<open>imagesHtml\<close> in the callback of \<open>renderTwitterThreadCard\<close>\<close>
  "thread_imagesHtml tweet =
     (if length (images tweet) > 0 then
        ''\<newline>      <div class=\"tweet-images '' @
        (if length (images tweet) > 1 then ''grid'' else []) @
        ''\">'' @
        ''\<newline>        '' @
        concat (map (\<lambda>img. ''<img src=\"'' @ img @ ''\" alt=\"Tweet image\">'') (images tweet)) @
        ''\<newline>      </div>'' @
        ''\<newline>    ''
      else [])"

definition thread_tweet :: "(string \<Rightarrow> string) \<Rightarrow> nat \<Rightarrow> nat \<Rightarrow> post \<Rightarrow> string" where
  \<comment> \<open>the callback of \<open>threadData.tweets.map\<close>, for the tweet at \<open>index\<close> of \<open>len\<close> tweets\<close>
  "thread_tweet formatRelativeTime len index tweet =
     (let isLast = (int index = int len - 1) in
      ''\<newline>      <div class=\"tweet '' @
      (if isMainTweet tweet then ''main-tweet'' else []) @
      ''\">'' @
      ''\<newline>        <div class=\"tweet-connector\">'' @
      ''\<newline>          <div class=\"avatar-wrapper\">'' @
      ''\<newline>            '' @
      (if truthy (avatar (author tweet))
       then ''<img class=\"avatar\" src=\"'' @ the (avatar (author tweet)) @ ''\" alt=\"Avatar\">''
       else ''<div class=\"avatar placeholder\"></div>'') @
      ''\<newline>          </div>'' @
      ''\<newline>          '' @
      (if \<not> isLast then connector_line else []) @
      ''\<newline>        </div>'' @
      ''\<newline>        <div class=\"tweet-content\">'' @
      ''\<newline>          <div class=\"tweet-header\">'' @
      ''\<newline>            <span class=\"name\">'' @
      escapeHtml (name (author tweet)) @
      ''</span>'' @
      ''\<newline>            <span class=\"handle\">@'' @
      escapeHtml (handle (author tweet)) @
      ''</span>'' @
      ''\<newline>            <span class=\"time\">'' @
      [CHR 0xC2, CHR 0xB7] @
      '' '' @
      formatRelativeTime (timestamp tweet) @
      ''</span>'' @
      ''\<newline>          </div>'' @
      ''\<newline>          <div class=\"tweet-text\">'' @
      escapeHtml (content tweet) @
      ''</div>'' @
      ''\<newline>          '' @
      thread_imagesHtml tweet @
      ''\<newline>        </div>'' @
      ''\<newline>      </div>'' @
      ''\<newline>    '')"

definition thread_tweetsHtml :: "(string \<Rightarrow> string) \<Rightarrow> post list \<Rightarrow> string" where
  \<comment> \<open>\<open>tweetsHtml\<close>: \<open>threadData.tweets.map((tweet, index) => ...).join('')\<close>\<close>
  "thread_tweetsHtml formatRelativeTime tweets =
     concat (map (\<lambda>(index, tweet). thread_tweet formatRelativeTime (length tweets) index tweet)
               (zip [0..<length tweets] tweets))"

definition renderTwitterThreadCard :: "string \<Rightarrow> (string \<Rightarrow> string) \<Rightarrow> post list \<Rightarrow> string" where
  "renderTwitterThreadCard css formatRelativeTime tweets =
     ''\<newline>    <!DOCTYPE html>'' @
     ''\<newline>    <html>'' @
     ''\<newline>    <head>'' @
     ''\<newline>      <meta charset=\"UTF-8\">'' @
     ''\<newline>      <style>'' @
     css @
     ''</style>'' @
     ''\<newline>    </head>'' @
     ''\<newline>    <body>'' @
     ''\<newline>      <div class=\"card\">'' @
     ''\<newline>        '' @
     thread_tweetsHtml formatRelativeTime tweets @
     ''\<newline>      </div>'' @
     ''\<newline>    </body>'' @
     ''\<newline>    </html>'' @
     ''\<newline>  ''"

definition bento_thread_imagesHtml :: "post \<Rightarrow> string" where
  \<comment> \<open>\<open>imagesHtml\<close> in the callback of \<open>renderBentoTwitterThreadCard\<close>\<close>
  "bento_thread_imagesHtml tweet =
     (if length (images tweet) > 0 then
        ''\<newline>      <div class=\"tweet-images '' @
        (if length (images tweet) > 1 then ''grid'' else []) @
        ''\">'' @
        ''\<newline>        '' @
        concat (map (\<lambda>img. ''<img src=\"'' @ img @ ''\" alt=\"Tweet image\">'') (images tweet)) @
        ''\<newline>      </div>'' @
        ''\<newline>    ''
      else [])"

definition bento_thread_tweet :: "nat \<Rightarrow> nat \<Rightarrow> post \<Rightarrow> string" where
  \<comment> \<open>the callback of \<open>threadData.tweets.map\<close>, for the tweet at \<open>index\<close> of \<open>len\<close> tweets\<close>
  "bento_thread_tweet len index tweet =
     (let isLast = (int index = int len - 1) in
      ''\<newline>      <div class=\"tweet\">'' @
      ''\<newline>        <div class=\"tweet-connector\">'' @
      ''\<newline>          <div class=\"avatar-wrapper\">'' @
      ''\<newline>            '' @
      (if truthy (avatar (author tweet))
       then ''<img class=\"avatar\" src=\"'' @ the (avatar (author tweet)) @ ''\" alt=\"Avatar\">''
       else ''<div class=\"avatar placeholder\"></div>'') @
      ''\<newline>          </div>'' @
      ''\<newline>          '' @
      (if \<not> isLast then connector_line else []) @
      ''\<newline>        </div>'' @
      ''\<newline>        <div class=\"tweet-content\">'' @
      ''\<newline>          <div class=\"tweet-header\">'' @
      ''\<newline>            <span class=\"name\">'' @
      escapeHtml (name (author tweet)) @
      ''</span>'' @
      ''\<newline>            <span class=\"handle\">@'' @
      escapeHtml (handle (author tweet)) @
      ''</span>'' @
      ''\<newline>          </div>'' @
      ''\<newline>          <div class=\"tweet-text\">'' @
      escapeHtml (content tweet) @
      ''</div>'' @
      ''\<newline>          '' @
      bento_thread_imagesHtml tweet @
      ''\<newline>        </div>'' @
      ''\<newline>      </div>'' @
      ''\<newline>    '')"

definition bento_thread_tweetsHtml :: "post list \<Rightarrow> string" where
  \<comment> \<open>\<open>tweetsHtml\<close>: \<open>threadData.tweets.map((tweet, index) => ...).join('')\<close>\<close>
  "bento_thread_tweetsHtml tweets =
     concat (map (\<lambda>(index, tweet). bento_thread_tweet (length tweets) index tweet)
               (zip [0..<length tweets] tweets))"

definition renderBentoTwitterThreadCard :: "string \<Rightarrow> post list \<Rightarrow> string" where
  "renderBentoTwitterThreadCard css tweets =
     ''\<newline>    <!DOCTYPE html>'' @
     ''\<newline>    <html>'' @
     ''\<newline>    <head>'' @
     ''\<newline>      <meta charset=\"UTF-8\">'' @
     ''\<newline>      <style>'' @
     css @
     ''</style>'' @
     ''\<newline>    </head>'' @
     ''\<newline>    <body>'' @
     ''\<newline>      <div class=\"card\">'' @
     ''\<newline>        '' @
     bento_thread_tweetsHtml tweets @
     ''\<newline>      </div>'' @
     ''\<newline>    </body>'' @
     ''\<newline>    </html>'' @
     ''\<newline>  ''"

definition macrumors_imagesHtml :: "post \<Rightarrow> string" where
  \<comment> \<open>\<open>imagesHtml\<close> in \<open>renderMacrumorsCard\<close>\<close>
  "macrumors_imagesHtml data =
     (if length (images data) > 0 then
        ''\<newline>    <div class=\"images\">'' @
        ''\<newline>      '' @
        concat (map (\<lambda>img. ''<img src=\"'' @ img @ ''\" alt=\"Post image\">'') (images data)) @
        ''\<newline>    </div>'' @
        ''\<newline>  ''
      else [])"

definition renderMacrumorsCard :: "string \<Rightarrow> (string \<Rightarrow> string) \<Rightarrow> post \<Rightarrow> string" where
  "renderMacrumorsCard css formatRelativeTime data =
     ''\<newline>    <!DOCTYPE html>'' @
     ''\<newline>    <html>'' @
     ''\<newline>    <head>'' @
     ''\<newline>      <meta charset=\"UTF-8\">'' @
     ''\<newline>      <style>'' @
     css @
     ''</style>'' @
     ''\<newline>    </head>'' @
     ''\<newline>    <body>'' @
     ''\<newline>      <div class=\"card\">'' @
     ''\<newline>        <div class=\"sidebar\">'' @
     ''\<newline>          '' @
     (if truthy (avatar (author data))
      then ''<img class=\"avatar\" src=\"'' @ the (avatar (author data)) @ ''\" alt=\"Avatar\">''
      else ''<div class=\"avatar\" style=\"background:#e9ecef;\"></div>'') @
     ''\<newline>          <div class=\"author-name\">'' @
     escapeHtml (name (author data)) @
     ''</div>'' @
     ''\<newline>          <div class=\"author-title\">'' @
     escapeHtml (if title (author data) \<noteq> [] then title (author data) else ''member'') @
     ''</div>'' @
     ''\<newline>        </div>'' @
     ''\<newline>        <div class=\"main\">'' @
     ''\<newline>          <div class=\"post-header\">'' @
     ''\<newline>            <span class=\"timestamp\">'' @
     formatRelativeTime (timestamp data) @
     ''</span>'' @
     ''\<newline>            '' @
     (if postNumber data \<noteq> []
      then ''<span class=\"post-number\">#'' @ postNumber data @ ''</span>''
      else []) @
     ''\<newline>          </div>'' @
     ''\<newline>          <div class=\"content\">'' @
     escapeHtml (content data) @
     ''</div>'' @
     ''\<newline>          '' @
     macrumors_imagesHtml data @
     ''\<newline>          '' @
     (if reactions data \<noteq> []
      then ''<div class=\"reactions\">'' @ escapeHtml (reactions data) @ ''</div>''
      else []) @
     ''\<newline>        </div>'' @
     ''\<newline>      </div>'' @
     ''\<newline>    </body>'' @
     ''\<newline>    </html>'' @
     ''\<newline>  ''"

definition bento_macrumors_imagesHtml :: "post \<Rightarrow> string" where
  \<comment> \<open>\<open>imagesHtml\<close> in \<open>renderBentoMacrumorsCard\<close>\<close>
  "bento_macrumors_imagesHtml data =
     (if length (images data) > 0 then
        ''\<newline>    <div class=\"images\">'' @
        ''\<newline>      '' @
        concat (map (\<lambda>img. ''<img src=\"'' @ img @ ''\" alt=\"Post image\">'') (images data)) @
        ''\<newline>    </div>'' @
        ''\<newline>  ''
      else [])"

definition renderBentoMacrumorsCard :: "string \<Rightarrow> post \<Rightarrow> string" where
  "renderBentoMacrumorsCard css data =
     ''\<newline>    <!DOCTYPE html>'' @
     ''\<newline>    <html>'' @
     ''\<newline>    <head>'' @
     ''\<newline>      <meta charset=\"UTF-8\">'' @
     ''\<newline>      <style>'' @
     css @
     ''</style>'' @
     ''\<newline>    </head>'' @
     ''\<newline>    <body>'' @
     ''\<newline>      <div class=\"card\">'' @
     ''\<newline>        <div class=\"header\">'' @
     ''\<newline>          '' @
     (if truthy (avatar (author data))
      then ''<img class=\"avatar\" src=\"'' @ the (avatar (author data)) @ ''\" alt=\"Avatar\">''
      else ''<div class=\"avatar\" style=\"background:#2c2c2e;\"></div>'') @
     ''\<newline>          <div class=\"author-info\">'' @
     ''\<newline>            <div class=\"name\">'' @
     escapeHtml (name (author data)) @
     ''</div>'' @
     ''\<newline>            <div class=\"title\">'' @
     escapeHtml (if title (author data) \<noteq> [] then title (author data) else ''member'') @
     ''</div>'' @
     ''\<newline>          </div>'' @
     ''\<newline>          '' @
     (if postNumber data \<noteq> []
      then ''<span class=\"post-number\">#'' @ postNumber data @ ''</span>''
      else []) @
     ''\<newline>        </div>'' @
     ''\<newline>        <div class=\"content\">'' @
     escapeHtml (content data) @
     ''</div>'' @
     ''\<newline>        '' @
     bento_macrumors_imagesHtml data @
     ''\<newline>        '' @
     (if reactions data \<noteq> []
      then ''<div class=\"reactions\">'' @ escapeHtml (reactions data) @ ''</div>''
      else []) @
     ''\<newline>      </div>'' @
     ''\<newline>    </body>'' @
     ''\<newline>    </html>'' @
     ''\<newline>  ''"

subsection \<open>The style sheets of the thread templates\<close>

definition CARD_WIDTH :: nat where
  "CARD_WIDTH = 550"

definition thread_css :: string where
  \<comment> \<open>the text of the \<open>style\<close> element of \<open>renderTwitterThreadCard\<close>\<close>
  "thread_css =
     ''\<newline>        * { margin: 0; padding: 0; box-sizing: border-box; }'' @
     ''\<newline>        body {'' @
     ''\<newline>          font-family: -apple-system, BlinkMacSystemFont, \"Segoe UI\", Roboto, Helvetica, Arial, sans-serif;'' @
     ''\<newline>          background: #000;'' @
     ''\<newline>          padding: 20px;'' @
     ''\<newline>        }'' @
     ''\<newline>        .card {'' @
     ''\<newline>          background: #16181c;'' @
     ''\<newline>          border-radius: 16px;'' @
     ''\<newline>          padding: 16px;'' @
     ''\<newline>          max-width: '' @
     show_nat CARD_WIDTH @
     ''px;'' @
     ''\<newline>          border: 1px solid #2f3336;'' @
     ''\<newline>        }'' @
     ''\<newline>        .tweet {'' @
     ''\<newline>          display: flex;'' @
     ''\<newline>          gap: 12px;'' @
     ''\<newline>          margin-bottom: 0;'' @
     ''\<newline>        }'' @
     ''\<newline>        .tweet.main-tweet .tweet-text {'' @
     ''\<newline>          font-size: 16px;'' @
     ''\<newline>        }'' @
     ''\<newline>        .tweet-connector {'' @
     ''\<newline>          display: flex;'' @
     ''\<newline>          flex-direction: column;'' @
     ''\<newline>          align-items: center;'' @
     ''\<newline>          width: 40px;'' @
     ''\<newline>          flex-shrink: 0;'' @
     ''\<newline>        }'' @
     ''\<newline>        .avatar-wrapper {'' @
     ''\<newline>          flex-shrink: 0;'' @
     ''\<newline>        }'' @
     ''\<newline>        .avatar {'' @
     ''\<newline>          width: 40px;'' @
     ''\<newline>          height: 40px;'' @
     ''\<newline>          border-radius: 50%;'' @
     ''\<newline>          object-fit: cover;'' @
     ''\<newline>        }'' @
     ''\<newline>        .avatar.placeholder {'' @
     ''\<newline>          background: #2f3336;'' @
     ''\<newline>        }'' @
     ''\<newline>        .connector-line {'' @
     ''\<newline>          width: 2px;'' @
     ''\<newline>          flex-grow: 1;'' @
     ''\<newline>          background: #2f3336;'' @
     ''\<newline>          min-height: 20px;'' @
     ''\<newline>          margin: 4px 0;'' @
     ''\<newline>        }'' @
     ''\<newline>        .tweet-content {'' @
     ''\<newline>          flex: 1;'' @
     ''\<newline>          padding-bottom: 16px;'' @
     ''\<newline>        }'' @
     ''\<newline>        .tweet:last-child .tweet-content {'' @
     ''\<newline>          padding-bottom: 0;'' @
     ''\<newline>        }'' @
     ''\<newline>        .tweet-header {'' @
     ''\<newline>          display: flex;'' @
     ''\<newline>          align-items: center;'' @
     ''\<newline>          gap: 4px;'' @
     ''\<newline>          margin-bottom: 4px;'' @
     ''\<newline>          flex-wrap: wrap;'' @
     ''\<newline>        }'' @
     ''\<newline>        .name {'' @
     ''\<newline>          color: #e7e9ea;'' @
     ''\<newline>          font-weight: 700;'' @
     ''\<newline>          font-size: 14px;'' @
     ''\<newline>        }'' @
     ''\<newline>        .handle {'' @
     ''\<newline>          color: #71767b;'' @
     ''\<newline>          font-size: 14px;'' @
     ''\<newline>        }'' @
     ''\<newline>        .time {'' @
     ''\<newline>          color: #71767b;'' @
     ''\<newline>          font-size: 14px;'' @
     ''\<newline>        }'' @
     ''\<newline>        .tweet-text {'' @
     ''\<newline>          color: #e7e9ea;'' @
     ''\<newline>          font-size: 14px;'' @
     ''\<newline>          line-height: 1.4;'' @
     ''\<newline>          white-space: pre-wrap;'' @
     ''\<newline>          word-wrap: break-word;'' @
     ''\<newline>        }'' @
     ''\<newline>        .tweet-images {'' @
     ''\<newline>          border-radius: 12px;'' @
     ''\<newline>          overflow: hidden;'' @
     ''\<newline>          margin-top: 12px;'' @
     ''\<newline>        }'' @
     ''\<newline>        .tweet-images.grid {'' @
     ''\<newline>          display: grid;'' @
     ''\<newline>          grid-template-columns: repeat(2, 1fr);'' @
     ''\<newline>          gap: 2px;'' @
     ''\<newline>        }'' @
     ''\<newline>        .tweet-images img {'' @
     ''\<newline>          width: 100%;'' @
     ''\<newline>          display: block;'' @
     ''\<newline>          max-height: 200px;'' @
     ''\<newline>          object-fit: cover;'' @
     ''\<newline>        }'' @
     ''\<newline>      ''"

definition bento_thread_css :: string where
  \<comment> \<open>the text of the \<open>style\<close> element of \<open>renderBentoTwitterThreadCard\<close>\<close>
  "bento_thread_css =
     ''\<newline>        * { margin: 0; padding: 0; box-sizing: border-box; }'' @
     ''\<newline>        body {'' @
     ''\<newline>          font-family: -apple-system, BlinkMacSystemFont, \"SF Pro Display\", \"SF Pro Text\", Helvetica, Arial, sans-serif;'' @
     ''\<newline>          background: transparent;'' @
     ''\<newline>          padding: 0;'' @
     ''\<newline>        }'' @
     ''\<newline>        .card {'' @
     ''\<newline>          background: #1c1c1e;'' @
     ''\<newline>          border-radius: 24px;'' @
     ''\<newline>          padding: 24px;'' @
     ''\<newline>          max-width: '' @
     show_nat CARD_WIDTH @
     ''px;'' @
     ''\<newline>        }'' @
     ''\<newline>        .tweet {'' @
     ''\<newline>          display: flex;'' @
     ''\<newline>          gap: 12px;'' @
     ''\<newline>        }'' @
     ''\<newline>        .tweet-connector {'' @
     ''\<newline>          display: flex;'' @
     ''\<newline>          flex-direction: column;'' @
     ''\<newline>          align-items: center;'' @
     ''\<newline>          width: 40px;'' @
     ''\<newline>          flex-shrink: 0;'' @
     ''\<newline>        }'' @
     ''\<newline>        .avatar {'' @
     ''\<newline>          width: 40px;'' @
     ''\<newline>          height: 40px;'' @
     ''\<newline>          border-radius: 50%;'' @
     ''\<newline>          object-fit: cover;'' @
     ''\<newline>        }'' @
     ''\<newline>        .avatar.placeholder {'' @
     ''\<newline>          background: #2c2c2e;'' @
     ''\<newline>        }'' @
     ''\<newline>        .connector-line {'' @
     ''\<newline>          width: 2px;'' @
     ''\<newline>          flex-grow: 1;'' @
     ''\<newline>          background: #3a3a3c;'' @
     ''\<newline>          min-height: 20px;'' @
     ''\<newline>          margin: 4px 0;'' @
     ''\<newline>        }'' @
     ''\<newline>        .tweet-content {'' @
     ''\<newline>          flex: 1;'' @
     ''\<newline>          padding-bottom: 20px;'' @
     ''\<newline>        }'' @
     ''\<newline>        .tweet:last-child .tweet-content {'' @
     ''\<newline>          padding-bottom: 0;'' @
     ''\<newline>        }'' @
     ''\<newline>        .tweet-header {'' @
     ''\<newline>          display: flex;'' @
     ''\<newline>          align-items: center;'' @
     ''\<newline>          gap: 6px;'' @
     ''\<newline>          margin-bottom: 4px;'' @
     ''\<newline>        }'' @
     ''\<newline>        .name {'' @
     ''\<newline>          color: #fff;'' @
     ''\<newline>          font-weight: 600;'' @
     ''\<newline>          font-size: 15px;'' @
     ''\<newline>          letter-spacing: -0.01em;'' @
     ''\<newline>        }'' @
     ''\<newline>        .handle {'' @
     ''\<newline>          color: rgba(255,255,255,0.55);'' @
     ''\<newline>          font-size: 14px;'' @
     ''\<newline>        }'' @
     ''\<newline>        .tweet-text {'' @
     ''\<newline>          color: #fff;'' @
     ''\<newline>          font-size: 16px;'' @
     ''\<newline>          line-height: 1.45;'' @
     ''\<newline>          white-space: pre-wrap;'' @
     ''\<newline>          word-wrap: break-word;'' @
     ''\<newline>          letter-spacing: -0.01em;'' @
     ''\<newline>        }'' @
     ''\<newline>        .tweet-images {'' @
     ''\<newline>          border-radius: 12px;'' @
     ''\<newline>          overflow: hidden;'' @
     ''\<newline>          margin-top: 12px;'' @
     ''\<newline>        }'' @
     ''\<newline>        .tweet-images.grid {'' @
     ''\<newline>          display: grid;'' @
     ''\<newline>          grid-template-columns: repeat(2, 1fr);'' @
     ''\<newline>          gap: 2px;'' @
     ''\<newline>        }'' @
     ''\<newline>        .tweet-images img {'' @
     ''\<newline>          width: 100%;'' @
     ''\<newline>          display: block;'' @
     ''\<newline>          max-height: 200px;'' @
     ''\<newline>          object-fit: cover;'' @
     ''\<newline>        }'' @
     ''\<newline>      ''"

section \<open>Counting markup in a document\<close>

fun count_occ :: "string \<Rightarrow> string \<Rightarrow> nat" where
  \<comment> \<open>the number of positions of the string at which the (non-empty) pattern occurs\<close>
  "count_occ pat [] = 0"
| "count_occ pat (c # cs) = (if prefix pat (c # cs) then 1 else 0) + count_occ pat cs"

fun clean :: "string \<Rightarrow> string \<Rightarrow> bool" where
  \<comment> \<open>at no position of the string can an occurrence of the pattern start, whatever
     text follows the string\<close>
  "clean pat [] = True"
| "clean pat (c # cs) = (\<not> prefix pat (c # cs) \<and> \<not> prefix (c # cs) pat \<and> clean pat cs)"

definition tweet_open :: string where
  \<comment> \<open>the element that opens the left column of every post block of a thread\<close>
  "tweet_open = ''<div class=\"tweet-connector\">''"

definition no_markup :: "string \<Rightarrow> bool" where
  "no_markup s = (CHR ''<'' \<notin> set s)"

definition inline_safe :: "post \<Rightarrow> bool" where
  \<comment> \<open>the inline images of the post, data URIs, contain no \<open><\<close>\<close>
  "inline_safe t =
     ((case avatar (author t) of None \<Rightarrow> True | Some a \<Rightarrow> no_markup a)
      \<and> list_all no_markup (images t))"

definition tweet_text_open :: string where
  \<comment> \<open>the element that opens the text of a post\<close>
  "tweet_text_open = ''<div class=\"tweet-text\">''"

definition tweet_name :: "post \<Rightarrow> string" where
  \<comment> \<open>the element that shows the name of the author of a post, escaped\<close>
  "tweet_name t = ''<span class=\"name\">'' @ escapeHtml (name (author t)) @ ''</span>''"

definition tweet_handle :: "post \<Rightarrow> string" where
  \<comment> \<open>the element that shows the handle of the author of a post, escaped\<close>
  "tweet_handle t = ''<span class=\"handle\">@'' @ escapeHtml (handle (author t)) @ ''</span>''"

definition tweet_text :: "post \<Rightarrow> string" where
  \<comment> \<open>the element that shows the text of a post, escaped\<close>
  "tweet_text t = tweet_text_open @ escapeHtml (content t) @ ''</div>''"

definition tweet_image :: "string \<Rightarrow> string" where
  \<comment> \<open>the element that shows one inline image of a post\<close>
  "tweet_image img = ''<img src=\"'' @ img @ ''\" alt=\"Tweet image\">''"

definition shows_post :: "string \<Rightarrow> post \<Rightarrow> bool" where
  \<comment> \<open>the block has one left column and one text element, and it holds the elements that
     show the name, the handle, the text and every inline image of the post\<close>
  "shows_post block t =
     (count_occ tweet_open block = 1 \<and> count_occ tweet_text_open block = 1
      \<and> str_includes block (tweet_name t) \<and> str_includes block (tweet_handle t)
      \<and> str_includes block (tweet_text t)
      \<and> list_all (\<lambda>img. str_includes block (tweet_image img)) (images t))"

section \<open>Example inputs\<close>

definition example_response :: "nat \<Rightarrow> string \<Rightarrow> string \<Rightarrow> response" where
  "example_response status ctype bytes =
     \<lparr> statusCode = status, location = None, contentType = Some ctype, body = bytes,
       aborted = False \<rparr>"

definition not_found_network :: network where
  \<comment> \<open>every request is answered \<open>404\<close> with an HTML page\<close>
  "not_found_network url = Response (example_response 404 ''text/html'' ''<h1>Not Found</h1>'')"

definition image_network :: network where
  \<comment> \<open>every request is answered \<open>200\<close> with a PNG image\<close>
  "image_network url = Response (example_response 200 ''image/png'' ''PNG'')"


definition relative_redirect_network :: network where
  \<comment> \<open>the server redirects to a relative location, which \<open>protocol.get\<close> refuses\<close>
  "relative_redirect_network url =
     (if url = ''/img/a.png'' then Throws (Error ''Invalid URL'')
      else Response \<lparr> statusCode = 302, location = Some ''/img/a.png'', contentType = None,
                      body = [], aborted = False \<rparr>)"

definition five_attachments :: "media_attachment list" where
  \<comment> \<open>the \<open>media_attachments\<close> of a status with five images\<close>
  "five_attachments =
     map (\<lambda>n. \<lparr> media_type = ''image'',
                media_url = Some (''https://files.example/media/'' @ n @ ''.png''),
                preview_url = None \<rparr>)
       [''1'', ''2'', ''3'', ''4'', ''5'']"

definition example_author :: author_info where
  "example_author = \<lparr> name = ''Alice'', handle = ''alice'', title = ''macrumors 6502'', avatar = None \<rparr>"

definition example_forum_post :: post where
  \<comment> \<open>a forum post whose post number and reactions both read \<open><b>7</b>\<close>\<close>
  "example_forum_post =
     \<lparr> author = example_author, content = ''Hello'', images = [], postNumber = ''<b>7</b>'',
       timestamp = ''2024-01-28T20:00:00Z'', reactions = ''<b>7</b>'', isMainTweet = False \<rparr>"

definition example_css :: string where
  "example_css = ''.card { padding: 16px; } .connector-line { width: 2px; }''"

definition example_time :: "string \<Rightarrow> string" where
  "example_time dateStr = (if dateStr = [] then [] else ''2h'')"

definition example_tweet :: "string \<Rightarrow> bool \<Rightarrow> post" where
  "example_tweet text main =
     \<lparr> author = example_author, content = text,
       images = (if main then [''data:image/png;base64,UE5H''] else []), postNumber = [],
       timestamp = ''2024-01-28T20:00:00Z'', reactions = [], isMainTweet = main \<rparr>"

definition example_thread :: "post list" where
  "example_thread =
     [example_tweet ''first <post>'' True, example_tweet ''second'' False,
      example_tweet ''third'' False]"

definition base64_digit :: "nat \<Rightarrow> char" where
  "base64_digit n =
     ''ABCDEFGHIJKLMNOPQRSTUVWXYZabcdefghijklmnopqrstuvwxyz0123456789+/'' ! (n mod 64)"

fun toString_base64 :: "string \<Rightarrow> string" where
  \<comment> \<open>\<open>buffer.toString('base64')\<close>: three bytes give four digits, the end is padded\<close>
  "toString_base64 (a # b # c # rest) =
     (let n = of_char a * 65536 + of_char b * 256 + of_char c
      in [base64_digit (n div 262144), base64_digit (n div 4096), base64_digit (n div 64),
          base64_digit n])
     @ toString_base64 rest"
| "toString_base64 [a, b] =
     (let n = of_char a * 65536 + of_char b * 256
      in [base64_digit (n div 262144), base64_digit (n div 4096), base64_digit (n div 64),
          CHR ''=''])"
| "toString_base64 [a] =
     (let n = of_char a * 65536
      in [base64_digit (n div 262144), base64_digit (n div 4096), CHR ''='', CHR ''=''])"
| "toString_base64 [] = []"

definition injecting_network :: network where
  \<comment> \<open>every request is answered \<open>200\<close> with a PNG image, under a \<open>content-type\<close> header
     that closes the attribute it is written into\<close>
  "injecting_network url =
     Response (example_response 200
       ''image/png\"><div class=\"connector-line\"></div><img src=\"data:image/png'' ''PNG'')"

definition injected_uri :: string where
  "injected_uri =
     ''data:image/png\"><div class=\"connector-line\"></div><img src=\"data:image/png;base64,UE5H''"

definition injected_thread :: "post list" where
  \<comment> \<open>a thread of one post, with one inline image\<close>
  "injected_thread =
     [\<lparr> author = example_author, content = ''only'', images = [injected_uri], postNumber = [],
        timestamp = ''2024-01-28T20:00:00Z'', reactions = [], isMainTweet = True \<rparr>]"
section \<open>Properties of the artifact names\<close>

lemma digit_inj: "a < 10 \<Longrightarrow> b < 10 \<Longrightarrow> digit a = digit b \<Longrightarrow> a = b"
  by (simp add: digit_def char_of_eq_iff take_bit_nat_eq_self)

lemma digit_is_digit: "d < 10 \<Longrightarrow> is_digit (digit d)"
  by (simp add: is_digit_def digit_def)

lemma show_nat_nonempty: "show_nat n \<noteq> []"
  by (subst show_nat.simps) simp

lemma show_nat_inj: "show_nat a = show_nat b \<Longrightarrow> a = b"
proof (induction a arbitrary: b rule: show_nat.induct)
  case (1 n)
  show ?case
  proof (cases "n < 10")
    case True
    note n = this
    show ?thesis
    proof (cases "b < 10")
      case True
      with n "1.prems" show ?thesis
        by (simp add: show_nat.simps [of n] show_nat.simps [of b] digit_inj)
    next
      case False
      with n "1.prems" show ?thesis
        by (simp add: show_nat.simps [of n] show_nat.simps [of b] show_nat_nonempty [symmetric])
    qed
  next
    case False
    note n = this
    show ?thesis
    proof (cases "b < 10")
      case True
      with n "1.prems" show ?thesis
        by (simp add: show_nat.simps [of n] show_nat.simps [of b] show_nat_nonempty)
    next
      case False
      with n "1.prems" have e: "show_nat (n div 10) = show_nat (b div 10)"
        and d: "digit (n mod 10) = digit (b mod 10)"
        by (simp_all add: show_nat.simps [of n] show_nat.simps [of b])
      from "1.IH" [OF n e] have "n div 10 = b div 10" .
      moreover from d have "n mod 10 = b mod 10"
        by (intro digit_inj) simp_all
      ultimately have "n div 10 * 10 + n mod 10 = b div 10 * 10 + b mod 10"
        by (rule arg_cong2)
      then show ?thesis
        by (simp only: div_mult_mod_eq)
    qed
  qed
qed

lemma show_nat_digits: "c \<in> set (show_nat n) \<Longrightarrow> is_digit c"
proof (induction n rule: show_nat.induct)
  case (1 n)
  show ?case
  proof (cases "n < 10")
    case True
    with "1.prems" show ?thesis
      by (simp add: show_nat.simps [of n] digit_is_digit)
  next
    case False
    with "1.prems" have "c \<in> set (show_nat (n div 10)) \<or> c = digit (n mod 10)"
      by (auto simp add: show_nat.simps [of n])
    then show ?thesis
    proof
      assume "c \<in> set (show_nat (n div 10))"
      with "1.IH" False show ?thesis by simp
    next
      assume "c = digit (n mod 10)"
      then show ?thesis by (simp add: digit_is_digit)
    qed
  qed
qed

lemma split_at_sep:
  "c \<notin> set A \<Longrightarrow> c \<notin> set B \<Longrightarrow> A @ c # R = B @ c # S \<Longrightarrow> A = B \<and> R = S"
proof (induction A arbitrary: B)
  case Nil
  then show ?case by (cases B) auto
next
  case (Cons a A)
  then show ?case by (cases B) auto
qed

lemma replace_first_suffix:
  "pat \<noteq> [] \<Longrightarrow> hd pat \<notin> set A \<Longrightarrow> replace_first pat rep (A @ pat) = A @ rep"
proof (induction A)
  case Nil
  then show ?case by (cases pat) simp_all
next
  case (Cons a A)
  from Cons.prems have "\<not> prefix pat ((a # A) @ pat)"
    by (cases pat) auto
  with Cons show ?case by simp
qed

lemma not_alnum_punct:
  "\<not> is_alnum CHR ''-''" "\<not> is_alnum CHR ''.''" "\<not> is_alnum CHR ''/''"
  "\<not> is_digit CHR ''-''" "\<not> is_digit CHR ''.''" "\<not> is_digit CHR ''/''"
  by (simp_all add: is_alnum_def is_lower_def is_upper_def is_digit_def)

lemma urlHash_alnum: "c \<in> set (urlHash u) \<Longrightarrow> is_alnum c"
  by (auto simp: urlHash_def dest: in_set_takeD)

lemma tag_chars: "CHR ''-'' \<notin> set (tag p)" "CHR ''.'' \<notin> set (tag p)" "CHR ''/'' \<notin> set (tag p)"
  by (cases p; simp)+

lemma tag_inj: "tag p = tag q \<Longrightarrow> p = q"
  by (cases p; cases q; simp)

lemma baseFilename_eq:
  "baseFilename now url p = tag p @ ''-'' @ urlHash url @ ''-'' @ show_nat now"
proof -
  let ?A = "tag p @ ''-'' @ urlHash url @ ''-'' @ show_nat now"
  have "CHR ''.'' \<notin> set ?A"
    using tag_chars(2) [of p] urlHash_alnum [of "CHR ''.''" url]
      show_nat_digits [of "CHR ''.''" now]
    by (auto simp: not_alnum_punct)
  then have "replace_first ''.png'' [] (?A @ ''.png'') = ?A @ []"
    by (intro replace_first_suffix) simp_all
  then show ?thesis by (simp add: baseFilename_def generateFilename_def)
qed

text \<open>
  C8 (as stated): two captures of different URLs get different base names. This fails:
  the name keeps only the last path segment of the URL, so two tweets with the same
  status number under different account names, captured in the same millisecond, share
  their base name.
\<close>

theorem baseFilename_collision:
  "''https://x.com/alice/status/1'' \<noteq> ''https://x.com/bob/status/1''
   \<and> detectPlatform ''https://x.com/alice/status/1'' = Twitter
   \<and> detectPlatform ''https://x.com/bob/status/1'' = Twitter
   \<and> baseFilename 1706472000000 ''https://x.com/alice/status/1'' Twitter
     = baseFilename 1706472000000 ''https://x.com/bob/status/1'' Twitter"
proof -
  have "urlHash ''https://x.com/alice/status/1'' = urlHash ''https://x.com/bob/status/1''"
    by code_simp
  moreover have "detectPlatform ''https://x.com/alice/status/1'' = Twitter"
    by code_simp
  moreover have "detectPlatform ''https://x.com/bob/status/1'' = Twitter"
    by code_simp
  ultimately show ?thesis
    by (simp add: baseFilename_eq)
qed

text \<open>
  C8 (amended): two captures get the same base name exactly when they agree on the
  platform tag, on the sanitised URL fragment (the alphanumeric characters of the last
  path segment, 20 at most) and on the timestamp; so the base names differ whenever the
  fragments differ or the timestamps differ.
\<close>

theorem baseFilename_eq_iff:
  "baseFilename t1 u1 p1 = baseFilename t2 u2 p2 \<longleftrightarrow>
     p1 = p2 \<and> urlHash u1 = urlHash u2 \<and> t1 = t2"
proof
  assume eq: "baseFilename t1 u1 p1 = baseFilename t2 u2 p2"
  then have e1: "tag p1 @ CHR ''-'' # (urlHash u1 @ CHR ''-'' # show_nat t1)
               = tag p2 @ CHR ''-'' # (urlHash u2 @ CHR ''-'' # show_nat t2)"
    by (simp add: baseFilename_eq)
  have t: "tag p1 = tag p2"
    and e2: "urlHash u1 @ CHR ''-'' # show_nat t1 = urlHash u2 @ CHR ''-'' # show_nat t2"
    using split_at_sep [OF tag_chars(1) tag_chars(1) e1] by simp_all
  have h: "CHR ''-'' \<notin> set (urlHash u)" for u
    using urlHash_alnum [of "CHR ''-''" u] by (auto simp: not_alnum_punct)
  from split_at_sep [OF h h e2] have "urlHash u1 = urlHash u2" "show_nat t1 = show_nat t2"
    by simp_all
  with t show "p1 = p2 \<and> urlHash u1 = urlHash u2 \<and> t1 = t2"
    by (simp add: tag_inj show_nat_inj)
next
  assume "p1 = p2 \<and> urlHash u1 = urlHash u2 \<and> t1 = t2"
  then show "baseFilename t1 u1 p1 = baseFilename t2 u2 p2"
    by (simp add: baseFilename_eq)
qed

section \<open>Properties of image materialisation\<close>

text \<open>
  C10: called with an absent or empty URL, \<open>imageToBase64\<close> and \<open>downloadImage\<close>
  resolve to \<open>null\<close> at once: no request is issued and no file is created (the state
  is returned as it was).
\<close>

theorem absent_url_resolves_null:
  "imageToBase64 net base64 None s = Some (Resolved None, s)
   \<and> imageToBase64 net base64 (Some []) s = Some (Resolved None, s)
   \<and> downloadImage net writable None filepath s = Some (Resolved None, s)
   \<and> downloadImage net writable (Some []) filepath s = Some (Resolved None, s)"
  by (simp add: imageToBase64.simps downloadImage.simps)

text \<open>
  C5 (the code at the failing input): a URL answered \<open>404\<close> with an HTML page. The claim
  has both functions resolve to \<open>null\<close> on a status that is neither 2xx nor a redirect;
  \<open>downloadImage\<close> does, while \<open>imageToBase64\<close>, which never reads the status, resolves to
  a data URI of the error page.
\<close>

theorem imageToBase64_not_found:
  "imageToBase64 not_found_network base64 (Some ''https://files.example/missing.png'') no_io
     = Some (Resolved (Some (''data:text/html;base64,'' @ base64 ''<h1>Not Found</h1>'')),
             \<lparr> requests = [''https://files.example/missing.png''], writes = [] \<rparr>)
   \<and> downloadImage not_found_network writable (Some ''https://files.example/missing.png'')
         ''out/a.png'' no_io
     = Some (Resolved None, \<lparr> requests = [''https://files.example/missing.png''], writes = [] \<rparr>)"
  by (simp add: imageToBase64.simps downloadImage.simps not_found_network_def
      example_response_def is_redirect_def data_uri_def request_def no_io_def truthy_def)

text \<open>
  A second way in which the caller is failed: a redirect to a location that
  \<open>protocol.get\<close> refuses rejects the inner promise, and \<open>.catch(reject)\<close> passes the
  rejection on.
\<close>

lemma imageToBase64_redirect_rejects:
  "imageToBase64 relative_redirect_network base64 (Some ''https://files.example/a.png'') no_io
     = Some (Rejected (Error ''Invalid URL''),
             \<lparr> requests = [''https://files.example/a.png''], writes = [] \<rparr>)"
  by (simp add: imageToBase64.simps relative_redirect_network_def is_redirect_def
      request_def no_io_def truthy_def)

lemma inline_images_length:
  "inline_images net base64 urls acc s = Some (Resolved imgs, s') \<Longrightarrow>
   length imgs \<le> length acc + length urls"
proof (induction urls arbitrary: acc s)
  case Nil
  then show ?case by simp
next
  case (Cons u urls)
  then show ?case
    by (fastforce split: option.splits prod.splits promise.splits if_splits)
qed

text \<open>The scrapers that slice their image list keep four inline images at most.\<close>

lemma twitter_images_at_most_4:
  "twitter_images net base64 imgs s = Some (Resolved inline, s') \<Longrightarrow> length inline \<le> 4"
  by (auto simp: twitter_images_def js_take_def dest!: inline_images_length)

lemma macrumors_images_at_most_4:
  "macrumors_images net base64 imgs s = Some (Resolved inline, s') \<Longrightarrow> length inline \<le> 4"
  by (auto simp: macrumors_images_def js_take_def dest!: inline_images_length)

text \<open>
  C4 (the code at the failing input): a Mastodon status with five image attachments,
  each of which downloads. \<open>scrapeMastodon\<close> has no \<open>slice(0, 4)\<close>, and the payload gets
  five inline images.
\<close>

theorem mastodon_five_inline_images:
  "\<exists>imgs s'. mastodon_images image_network base64 (Some five_attachments) no_io
                 = Some (Resolved imgs, s')
     \<and> length imgs = 5"
  by (simp add: mastodon_images_def mastodon_image_urls_def five_attachments_def
      imageToBase64.simps image_network_def example_response_def is_redirect_def
      data_uri_def request_def no_io_def truthy_def)

section \<open>Properties of the pipeline and of the scheduler\<close>

lemma processUrl_unknown:
  "detectPlatform url = Unknown \<Longrightarrow>
   processUrl st url index tot outputDir opts = Some (Resolved (Failed url ''Unknown platform''), [])"
  by (simp add: processUrl_def)

lemma capture_url:
  "capture st p url index outputDir opts = Some (Inr r, ws) \<Longrightarrow> result_url r = url \<and> success r"
  by (auto simp: capture_def split: option.splits sum.splits prod.splits)

lemma processUrl_cases:
  assumes "processUrl st url index tot outputDir opts = Some (x, ws)"
  shows "\<exists>r. x = Resolved r \<and> result_url r = url"
proof (cases "detectPlatform url = Unknown")
  case True
  with assms show ?thesis by (auto simp: processUrl_unknown)
next
  case False
  with assms obtain y where c: "capture st (detectPlatform url) url index outputDir opts = Some (y, ws)"
    by (auto simp: processUrl_def split: option.splits sum.splits prod.splits)
  show ?thesis
  proof (cases y)
    case (Inl e)
    with False c assms show ?thesis by (auto simp: processUrl_def)
  next
    case (Inr r)
    with False c assms capture_url [of st "detectPlatform url" url index outputDir opts r ws]
    show ?thesis by (auto simp: processUrl_def)
  qed
qed

lemma download_all_settles:
  assumes "\<forall>u p. downloadImage (network_of st) (fs_writable st) u p no_io \<noteq> None"
  shows "download_all st outputDir base urls i imgs ws \<noteq> None"
proof (induction urls arbitrary: i imgs ws)
  case Nil
  show ?case by simp
next
  case (Cons u urls)
  show ?case
  proof (cases "getImageExtension u")
    case (Inl e)
    then show ?thesis by simp
  next
    case (Inr ext)
    let ?f = "path_join outputDir (base @ ''-image-'' @ show_nat (i + 1) @ ''.'' @ ext)"
    from assms have "downloadImage (network_of st) (fs_writable st) u ?f no_io \<noteq> None"
      by blast
    then obtain x s where d: "downloadImage (network_of st) (fs_writable st) u ?f no_io = Some (x, s)"
      by (metis not_Some_eq surj_pair)
    show ?thesis
    proof (cases x)
      case (Rejected e)
      with Inr d show ?thesis by (simp add: Let_def)
    next
      case (Resolved r)
      with Inr d Cons.IH show ?thesis by (simp add: Let_def)
    qed
  qed
qed

lemma capture_settles:
  assumes "\<forall>sc u. scrape st sc u \<noteq> None"
    and "\<forall>h p. generateScreenshot st h p \<noteq> None"
    and "\<forall>u p. downloadImage (network_of st) (fs_writable st) u p no_io \<noteq> None"
  shows "capture st p url index outputDir opts \<noteq> None"
proof (cases "dispatch p opts")
  case None
  then show ?thesis by (simp add: capture_def)
next
  case (Some a)
  obtain sc t where a: "a = (sc, t)" by (cases a)
  from assms(1) obtain x where x: "scrape st sc url = Some x" by blast
  show ?thesis
  proof (cases x)
    case (Inl e)
    with Some a x show ?thesis by (simp add: capture_def)
  next
    case (Inr d)
    note d = this
    show ?thesis
    proof (cases "render st t (bento opts) d")
      case (Inl e)
      with Some a x d show ?thesis by (simp add: capture_def)
    next
      case (Inr html)
      note html = this
      from assms(2) obtain y where
        y: "generateScreenshot st html (card_path st p url index outputDir) = Some y" by blast
      have "downloads st p url index outputDir d \<noteq> None"
        unfolding downloads_def using assms(3) by (rule download_all_settles)
      then obtain z ws where z: "downloads st p url index outputDir d = Some (z, ws)"
        by (metis not_Some_eq surj_pair)
      from Some a x d html y z show ?thesis
        by (simp add: capture_def split: sum.splits)
    qed
  qed
qed

lemma processUrl_settles:
  assumes "\<forall>sc u. scrape st sc u \<noteq> None"
    and "\<forall>h p. generateScreenshot st h p \<noteq> None"
    and "\<forall>u p. downloadImage (network_of st) (fs_writable st) u p no_io \<noteq> None"
  shows "processUrl st url index tot outputDir opts \<noteq> None"
  using capture_settles [OF assms, of "detectPlatform url" url index outputDir opts]
  by (auto simp: processUrl_def Let_def split: option.splits sum.splits prod.splits)

lemma promise_all_Resolved: "promise_all (map (\<lambda>v. Some (Resolved v)) vs) = Some (Resolved vs)"
  by (induction vs) simp_all

lemma js_slice_wave:
  assumes "0 \<le> i" "0 < c"
  shows "js_slice xs i (i + c) = take (nat c) (drop (nat i) xs)"
proof -
  let ?len = "int (length xs)"
  consider "?len \<le> i" | "i < ?len" "i + c \<le> ?len" | "i < ?len" "?len < i + c"
    by linarith
  then show ?thesis
  proof cases
    case 1
    with assms show ?thesis by (simp add: js_slice_def Let_def min_def)
  next
    case 2
    with assms have "nat (i + c - i) = nat c" by simp
    with 2 assms show ?thesis by (simp add: js_slice_def Let_def min_def)
  next
    case 3
    with assms have "length (drop (nat i) xs) \<le> nat c" "length (drop (nat i) xs) \<le> nat (?len - i)"
      by simp_all
    then have "take (nat c) (drop (nat i) xs) = drop (nat i) xs"
      "take (nat (?len - i)) (drop (nat i) xs) = drop (nat i) xs"
      by simp_all
    with 3 assms show ?thesis by (simp add: js_slice_def Let_def min_def)
  qed
qed

lemma run_batch_wave:
  assumes "0 \<le> i" "0 < c"
  shows "run_batch st urls outputDir c opts i =
    map (\<lambda>k. map_option (\<lambda>r. (fst r, map (Pair (int k)) (snd r))) (item st urls outputDir opts k))
      [nat i ..< min (length urls) (nat i + nat c)]"
    (is "?L = map ?g ?ks")
proof (rule nth_equalityI)
  show len: "length ?L = length (map ?g ?ks)"
    using assms by (simp add: run_batch_def js_slice_wave Let_def min_def)
  fix j assume "j < length ?L"
  with len have j: "j < min (length urls) (nat i + nat c) - nat i" by simp
  then have j1: "j < nat c" "nat i + j < length urls" by (simp_all add: min_def split: if_splits)
  let ?batch = "take (nat c) (drop (nat i) urls)"
  let ?f = "\<lambda>(batchIndex, url).
             (let index = i + int batchIndex in
              map_option (\<lambda>r. (fst r, map (Pair index) (snd r)))
                (processUrl st url index (length urls) outputDir opts))"
  from j have lb: "j < length ?batch" by (simp add: min_def split: if_splits)
  from j1 have "drop (nat i) urls ! j = urls ! (nat i + j)"
    by (intro nth_drop) simp
  with lb have "zip [0..<length ?batch] ?batch ! j = (j, urls ! (nat i + j))"
    by simp
  moreover from lb have "j < length (zip [0..<length ?batch] ?batch)" by simp
  ultimately have "map ?f (zip [0..<length ?batch] ?batch) ! j = ?f (j, urls ! (nat i + j))"
    by (simp only: nth_map)
  moreover from assms have "i + int j = int (nat i + j)" by simp
  ultimately have "?L ! j = ?g (nat i + j)"
    using assms by (simp add: run_batch_def js_slice_wave Let_def item_def del: of_nat_add)
  moreover from j1 have "nat i + j < min (length urls) (nat i + nat c)" by simp
  with j have "map ?g ?ks ! j = ?g (nat i + j)"
    by (simp only: nth_map length_upt nth_upt)
  ultimately show "?L ! j = map ?g ?ks ! j" by simp
qed

lemma item_cases:
  assumes "item st urls outputDir opts k \<noteq> None"
  shows "\<exists>r ws. item st urls outputDir opts k = Some (Resolved r, ws) \<and> result_url r = urls ! k"
proof -
  from assms obtain x ws where i: "item st urls outputDir opts k = Some (x, ws)" by auto
  with processUrl_cases [of st "urls ! k" "int k" "length urls" outputDir opts x ws]
  show ?thesis by (auto simp: item_def)
qed

lemma items_resolve:
  assumes "settles st urls outputDir opts"
  shows "set ks \<subseteq> {..<length urls} \<Longrightarrow>
    \<exists>rs. map (\<lambda>k. map_option fst (item st urls outputDir opts k)) ks = map (\<lambda>r. Some (Resolved r)) rs"
proof (induction ks)
  case Nil
  show ?case by simp
next
  case (Cons k ks)
  then obtain rs where
    "map (\<lambda>k. map_option fst (item st urls outputDir opts k)) ks = map (\<lambda>r. Some (Resolved r)) rs"
    by auto
  moreover from Cons.prems assms have "item st urls outputDir opts k \<noteq> None"
    by (simp add: settles_def list_all_iff)
  then obtain r ws where "item st urls outputDir opts k = Some (Resolved r, ws)"
    using item_cases by blast
  ultimately have "map (\<lambda>k. map_option fst (item st urls outputDir opts k)) (k # ks)
      = map (\<lambda>r. Some (Resolved r)) (r # rs)"
    by simp
  then show ?case ..
qed

lemma upt_split: "i \<le> j \<Longrightarrow> j \<le> k \<Longrightarrow> [i..<k] = [i..<j] @ [j..<k]"
  using upt_add_eq_append [of i j "k - j"] by simp

lemma waves_step:
  assumes "0 < c" "i < length xs"
  shows "waves c (drop i xs) = take c (drop i xs) # waves c (drop (i + c) xs)"
proof -
  from assms(2) obtain a list where d: "drop i xs = a # list"
    by (cases "drop i xs") simp_all
  have "drop (i + c) xs = drop c (drop i xs)" by (simp add: add.commute)
  with d assms(1) show ?thesis by simp
qed

lemma batch_writes_items:
  "batch_writes (map (\<lambda>k. map_option (\<lambda>r. (fst r, map (Pair (int k)) (snd r)))
                          (item st urls outputDir opts k)) ks)
   = concat (map (item_writes st urls outputDir opts) ks)"
  by (induction ks) (auto simp: batch_writes_def item_writes_def split: option.splits)

lemma batch_loop_closed:
  assumes c: "0 < c" and s: "settles st urls outputDir opts"
  shows "0 \<le> i \<Longrightarrow> \<exists>rs. batch_loop st urls outputDir c opts i results ws launched =
      Some (Resolved (results @ rs),
            ws @ concat (map (item_writes st urls outputDir opts) [nat i ..< length urls]),
            launched @ waves (nat c) (drop (nat i) urls))
    \<and> map (\<lambda>r. Some (Resolved r)) rs
        = map (\<lambda>k. map_option fst (item st urls outputDir opts k)) [nat i ..< length urls]"
proof (induction "length urls - nat i" arbitrary: i results ws launched rule: less_induct)
  case less
  show ?case
  proof (cases "i < int (length urls)")
    case False
    with less.prems have "[nat i ..< length urls] = []" "drop (nat i) urls = []" by simp_all
    with False show ?thesis
      by (subst batch_loop.simps) simp
  next
    case True
    let ?m = "min (length urls) (nat i + nat c)"
    let ?F = "\<lambda>k. map_option fst (item st urls outputDir opts k)"
    let ?W = "item_writes st urls outputDir opts"
    let ?b = "take (nat c) (drop (nat i) urls)"
    have rb: "run_batch st urls outputDir c opts i =
        map (\<lambda>k. map_option (\<lambda>r. (fst r, map (Pair (int k)) (snd r)))
                   (item st urls outputDir opts k)) [nat i ..< ?m]"
      using less.prems c by (rule run_batch_wave)
    have sl: "js_slice urls i (i + c) = ?b"
      using less.prems c by (rule js_slice_wave)
    have "set [nat i ..< ?m] \<subseteq> {..<length urls}" by auto
    then obtain bs where bs: "map ?F [nat i ..< ?m] = map (\<lambda>r. Some (Resolved r)) bs"
      using items_resolve [OF s] by blast
    have fsts: "map (map_option fst) (run_batch st urls outputDir c opts i)
        = map (\<lambda>r. Some (Resolved r)) bs"
      by (simp add: rb bs [symmetric] comp_def option.map_comp)
    have snds: "batch_writes (run_batch st urls outputDir c opts i) = concat (map ?W [nat i ..< ?m])"
      unfolding rb by (rule batch_writes_items)
    have step: "batch_loop st urls outputDir c opts i results ws launched =
      batch_loop st urls outputDir c opts (i + c) (results @ bs)
        (ws @ concat (map ?W [nat i ..< ?m])) (launched @ [?b])"
      using True by (subst batch_loop.simps) (simp add: fsts snds sl promise_all_Resolved)
    from True less.prems have il: "nat i < length urls" by simp
    from c have wv: "waves (nat c) (drop (nat i) urls) = ?b # waves (nat c) (drop (nat i + nat c) urls)"
      using il by (intro waves_step) simp_all
    show ?thesis
    proof (cases "i + c < int (length urls)")
      case True
      with c less.prems have m: "?m = nat (i + c)" by (simp add: nat_add_distrib)
      from c less.prems have ic: "nat i + nat c = nat (i + c)" by (simp add: nat_add_distrib)
      from True c less.prems have "length urls - nat (i + c) < length urls - nat i" by linarith
      moreover from c less.prems have "0 \<le> i + c" by simp
      ultimately obtain rs where
        rs: "batch_loop st urls outputDir c opts (i + c) (results @ bs)
               (ws @ concat (map ?W [nat i ..< ?m])) (launched @ [?b]) =
          Some (Resolved ((results @ bs) @ rs),
            (ws @ concat (map ?W [nat i ..< ?m])) @ concat (map ?W [nat (i + c) ..< length urls]),
            (launched @ [?b]) @ waves (nat c) (drop (nat (i + c)) urls))"
        and rs2: "map (\<lambda>r. Some (Resolved r)) rs = map ?F [nat (i + c) ..< length urls]"
        using less.hyps by blast
      from True c less.prems have split: "[nat i ..< length urls] = [nat i ..< ?m] @ [?m ..< length urls]"
        unfolding m by (intro upt_split) linarith+
      have "batch_loop st urls outputDir c opts i results ws launched =
        Some (Resolved (results @ (bs @ rs)), ws @ concat (map ?W [nat i ..< length urls]),
              launched @ waves (nat c) (drop (nat i) urls))"
        unfolding step rs split wv using m by (simp add: ic)
      moreover have "map (\<lambda>r. Some (Resolved r)) (bs @ rs) = map ?F [nat i ..< length urls]"
        unfolding split by (simp add: bs [symmetric] rs2 m)
      ultimately show ?thesis by blast
    next
      case False
      with c less.prems have m: "?m = length urls" by (auto simp: min_def)
      from False c less.prems have "drop (nat i + nat c) urls = []" by simp
      with wv have wv': "waves (nat c) (drop (nat i) urls) = [?b]" by simp
      from False have fin: "batch_loop st urls outputDir c opts (i + c) (results @ bs)
           (ws @ concat (map ?W [nat i ..< ?m])) (launched @ [?b])
        = Some (Resolved (results @ bs), ws @ concat (map ?W [nat i ..< ?m]), launched @ [?b])"
        by (subst batch_loop.simps) simp
      from step fin bs wv' show ?thesis by (auto simp: m)
    qed
  qed
qed

lemma concat_waves: "0 < c \<Longrightarrow> concat (waves c xs) = xs"
proof (induction c xs rule: waves.induct)
  case (1 c)
  show ?case by simp
next
  case (2 c x xs)
  then show ?case by simp
qed

lemma length_waves: "w \<in> set (waves c xs) \<Longrightarrow> w \<noteq> [] \<and> length w \<le> c"
proof (induction c xs rule: waves.induct)
  case (1 c)
  then show ?case by simp
next
  case (2 c x xs)
  then show ?case by (auto split: if_splits)
qed

lemma processInParallel_closed:
  assumes "0 < c" "settles st urls outputDir opts"
  shows "\<exists>rs. processInParallel st urls outputDir c opts =
      Some (Resolved rs, concat (map (item_writes st urls outputDir opts) [0 ..< length urls]),
            waves (nat c) urls)
    \<and> length rs = length urls
    \<and> (\<forall>k < length urls. item st urls outputDir opts k \<noteq> None
          \<and> map_option fst (item st urls outputDir opts k) = Some (Resolved (rs ! k))
          \<and> result_url (rs ! k) = urls ! k)"
proof -
  let ?F = "\<lambda>k. map_option fst (item st urls outputDir opts k)"
  from batch_loop_closed [OF assms, of 0 "[]" "[]" "[]"] obtain rs where
    run: "processInParallel st urls outputDir c opts =
      Some (Resolved rs, concat (map (item_writes st urls outputDir opts) [0 ..< length urls]),
            waves (nat c) urls)"
    and rs: "map (\<lambda>r. Some (Resolved r)) rs = map ?F [0 ..< length urls]"
    by (auto simp: processInParallel_def)
  from rs have "length (map (\<lambda>r. Some (Resolved r)) rs) = length (map ?F [0 ..< length urls])"
    by simp
  then have len: "length rs = length urls" by simp
  have nth: "item st urls outputDir opts k \<noteq> None \<and> ?F k = Some (Resolved (rs ! k))
      \<and> result_url (rs ! k) = urls ! k" if "k < length urls" for k
  proof -
    from rs have "map (\<lambda>r. Some (Resolved r)) rs ! k = map ?F [0 ..< length urls] ! k" by simp
    with that len have e: "?F k = Some (Resolved (rs ! k))" by simp
    then have n: "item st urls outputDir opts k \<noteq> None" by auto
    from item_cases [OF n] e show ?thesis using n by auto
  qed
  from run len nth show ?thesis by blast
qed

subsection \<open>The example environment\<close>

lemma example_platforms:
  "detectPlatform ''https://x.com/alice/status/1'' = Twitter"
  "detectPlatform ''https://example.com/post/2'' = Unknown"
  "detectPlatform ''https://bsky.app/profile/carol.bsky.social/post/3'' = Bluesky"
  by code_simp+


lemma image_network_settles:
  "downloadImage image_network (\<lambda>path. True) u p no_io \<noteq> None"
proof (cases u)
  case None
  then show ?thesis by (simp add: downloadImage.simps)
next
  case (Some a)
  then show ?thesis
    by (simp add: downloadImage.simps image_network_def example_response_def is_redirect_def
        truthy_def)
qed

lemma example_settles:
  "settles (example_stages None image_network) urls outputDir opts"
proof -
  have "processUrl (example_stages None image_network) url index tot outputDir opts \<noteq> None"
    for url index tot
    by (rule processUrl_settles) (simp_all add: example_stages_def image_network_settles)
  then show ?thesis by (simp add: settles_def list_all_iff item_def)
qed

subsection \<open>The pipeline of one URL\<close>




subsection \<open>The batch\<close>

text \<open>
  C3: for a concurrency bound \<open>c\<close> of at least 1 and pipelines that settle,
  \<open>processInParallel\<close> returns one result per input URL, the \<open>i\<close>-th result being that of
  \<open>processUrl\<close> on the \<open>i\<close>-th URL; the batches it launches, one after the other, are the
  consecutive waves of the input: none is empty, none holds more than \<open>c\<close> URLs, their
  concatenation is the input, and the results are those of the launched batches, in order.
\<close>

theorem processInParallel_results:
  assumes "1 \<le> c" and "settles st urls outputDir opts"
  shows "\<exists>rs ws launched.
       processInParallel st urls outputDir c opts = Some (Resolved rs, ws, launched)
     \<and> length rs = length urls
     \<and> (\<forall>i < length urls.
           map_option fst (processUrl st (urls ! i) (int i) (length urls) outputDir opts)
             = Some (Resolved (rs ! i))
           \<and> result_url (rs ! i) = urls ! i)
     \<and> launched = waves (nat c) urls
     \<and> (\<forall>w \<in> set launched. w \<noteq> [] \<and> length w \<le> nat c)
     \<and> concat launched = urls
     \<and> map result_url rs = concat launched"
proof -
  from assms have c: "0 < c" by simp
  from processInParallel_closed [OF c assms(2)] obtain rs where
    run: "processInParallel st urls outputDir c opts =
      Some (Resolved rs, concat (map (item_writes st urls outputDir opts) [0 ..< length urls]),
            waves (nat c) urls)"
    and len: "length rs = length urls"
    and nth: "\<forall>k < length urls.
          map_option fst (item st urls outputDir opts k) = Some (Resolved (rs ! k))
          \<and> result_url (rs ! k) = urls ! k"
    by blast
  from c have cw: "concat (waves (nat c) urls) = urls" by (simp add: concat_waves)
  from len nth have "map result_url rs = urls"
    by (intro nth_equalityI) simp_all
  with cw have "map result_url rs = concat (waves (nat c) urls)" by simp
  moreover have "\<forall>w \<in> set (waves (nat c) urls). w \<noteq> [] \<and> length w \<le> nat c"
    using length_waves by blast
  ultimately show ?thesis
    using run len nth cw unfolding item_def by blast
qed

theorem processInParallel_results_witness:
  "(1::int) \<le> 2 \<and> settles (example_stages None image_network) example_urls ''out'' example_options
   \<and> (\<exists>rs ws launched.
         processInParallel (example_stages None image_network) example_urls ''out'' 2
           example_options = Some (Resolved rs, ws, launched)
         \<and> length rs = 3
         \<and> map result_url rs = example_urls
         \<and> launched = [[''https://x.com/alice/status/1'', ''https://example.com/post/2''],
                        [''https://bsky.app/profile/carol.bsky.social/post/3'']])"
proof -
  have h: "(1::int) \<le> 2" by simp
  note s = example_settles [of example_urls "''out''" example_options]
  from processInParallel_results [OF h s]
  obtain rs ws launched where
    run: "processInParallel (example_stages None image_network) example_urls ''out'' 2
            example_options = Some (Resolved rs, ws, launched)"
    and len: "length rs = length example_urls"
    and l: "launched = waves (nat 2) example_urls"
    and c: "concat launched = example_urls"
    and r: "map result_url rs = concat launched"
    by blast
  have "length example_urls = 3" by (simp add: example_urls_def)
  moreover have "waves (nat 2) example_urls =
      [[''https://x.com/alice/status/1'', ''https://example.com/post/2''],
       [''https://bsky.app/profile/carol.bsky.social/post/3'']]"
    by (simp add: example_urls_def eval_nat_numeral)
  ultimately show ?thesis using run len l c r h s by auto
qed

text \<open>
  C6: for pipelines that settle, the batch run with concurrency 1 and the batch run with
  any concurrency above 1 both return one result per input URL, the result at each
  position is that of the URL at this position, and the two results at a position have
  the same success value (the stages being functions of their arguments).
\<close>

theorem batch_same_pattern:
  assumes "1 < N" and "settles st urls outputDir opts"
  shows "\<exists>rs1 ws1 l1 rsN wsN lN.
       processInParallel st urls outputDir 1 opts = Some (Resolved rs1, ws1, l1)
     \<and> processInParallel st urls outputDir N opts = Some (Resolved rsN, wsN, lN)
     \<and> length rs1 = length urls \<and> length rsN = length urls
     \<and> (\<forall>i < length urls. result_url (rs1 ! i) = urls ! i \<and> result_url (rsN ! i) = urls ! i
           \<and> success (rs1 ! i) = success (rsN ! i))
     \<and> map success rs1 = map success rsN"
proof -
  let ?F = "\<lambda>k. map_option fst (item st urls outputDir opts k)"
  from assms have N: "0 < N" by simp
  from processInParallel_closed [of 1, OF _ assms(2)] obtain rs1 ws1 l1 where
    r1: "processInParallel st urls outputDir 1 opts = Some (Resolved rs1, ws1, l1)"
    and len1: "length rs1 = length urls"
    and n1: "\<forall>k < length urls. ?F k = Some (Resolved (rs1 ! k)) \<and> result_url (rs1 ! k) = urls ! k"
    by auto
  from processInParallel_closed [OF N assms(2)] obtain rsN wsN lN where
    rN: "processInParallel st urls outputDir N opts = Some (Resolved rsN, wsN, lN)"
    and lenN: "length rsN = length urls"
    and nN: "\<forall>k < length urls. ?F k = Some (Resolved (rsN ! k)) \<and> result_url (rsN ! k) = urls ! k"
    by auto
  have eq: "rs1 ! i = rsN ! i" if "i < length urls" for i
    using that n1 nN by (metis option.inject promise.inject(1))
  with len1 lenN have "rs1 = rsN" by (intro nth_equalityI) simp_all
  with r1 rN len1 lenN n1 nN show ?thesis by auto
qed

theorem batch_same_pattern_witness:
  "(1::int) < 2 \<and> settles (example_stages None image_network) example_urls ''out'' example_options
   \<and> (\<exists>rs1 ws1 l1 rsN wsN lN.
       processInParallel (example_stages None image_network) example_urls ''out'' 1
         example_options = Some (Resolved rs1, ws1, l1)
     \<and> processInParallel (example_stages None image_network) example_urls ''out'' 2
         example_options = Some (Resolved rsN, wsN, lN)
     \<and> length rs1 = 3 \<and> length rsN = 3
     \<and> map result_url rs1 = example_urls \<and> map result_url rsN = example_urls
     \<and> map success rs1 = map success rsN)"
proof -
  have h: "(1::int) < 2" by simp
  note s = example_settles [of example_urls "''out''" example_options]
  from batch_same_pattern [OF h s] obtain rs1 ws1 l1 rsN wsN lN where
    r1: "processInParallel (example_stages None image_network) example_urls ''out'' 1
         example_options = Some (Resolved rs1, ws1, l1)"
    and rN: "processInParallel (example_stages None image_network) example_urls ''out'' 2
         example_options = Some (Resolved rsN, wsN, lN)"
    and len: "length rs1 = length example_urls" "length rsN = length example_urls"
    and nth: "\<forall>i < length example_urls. result_url (rs1 ! i) = example_urls ! i
           \<and> result_url (rsN ! i) = example_urls ! i"
    and m: "map success rs1 = map success rsN"
    by blast
  from len nth have "map result_url rs1 = example_urls" "map result_url rsN = example_urls"
    by (auto intro!: nth_equalityI)
  moreover have "length example_urls = 3" by (simp add: example_urls_def)
  ultimately show ?thesis using r1 rN len m h s by auto
qed

text \<open>
  C7: for a URL that \<open>detectPlatform\<close> maps to no platform, the pipeline resolves to the
  failure object with the message \<open>Unknown platform\<close> and creates no file, whatever the
  stages do; so does the promise launched for that URL in its batch; and in the result of
  the whole batch, which is returned when the pipelines of all its URLs settle, the result
  at the position of that URL is this failure, and no file is created for that item.
\<close>

theorem unknown_platform_no_writes:
  "(detectPlatform url = Unknown \<longrightarrow>
      processUrl st url index tot outputDir opts
        = Some (Resolved (Failed url ''Unknown platform''), []))
   \<and> (1 \<le> c \<and> i < length urls \<and> detectPlatform (urls ! i) = Unknown \<longrightarrow>
        run_batch st urls outputDir c opts (int (i div nat c) * c) ! (i mod nat c)
          = Some (Resolved (Failed (urls ! i) ''Unknown platform''), []))
   \<and> (1 \<le> c \<and> i < length urls \<and> detectPlatform (urls ! i) = Unknown
        \<and> settles st urls outputDir opts \<longrightarrow>
        (\<exists>rs ws launched.
           processInParallel st urls outputDir c opts = Some (Resolved rs, ws, launched)
           \<and> rs ! i = Failed (urls ! i) ''Unknown platform'' \<and> \<not> success (rs ! i)
           \<and> (\<forall>path. (int i, path) \<notin> set ws)))"
proof (intro conjI impI)
  assume "detectPlatform url = Unknown"
  then show "processUrl st url index tot outputDir opts
      = Some (Resolved (Failed url ''Unknown platform''), [])"
    by (rule processUrl_unknown)
next
  assume a: "1 \<le> c \<and> i < length urls \<and> detectPlatform (urls ! i) = Unknown"
  let ?g = "\<lambda>k. map_option (\<lambda>r. (fst r, map (Pair (int k)) (snd r))) (item st urls outputDir opts k)"
  let ?s = "int (i div nat c) * c"
  from a have c: "0 < c" by simp
  from a have it: "item st urls outputDir opts i = Some (Resolved (Failed (urls ! i) ''Unknown platform''), [])"
    by (simp add: item_def processUrl_unknown)
  from c have s0: "0 \<le> ?s" by simp
  from c have ns: "nat ?s = i div nat c * nat c" by (simp add: nat_mult_distrib)
  have i: "nat ?s + i mod nat c = i" unfolding ns by simp
  from c have j: "i mod nat c < nat c" by simp
  from i j have "i < nat ?s + nat c" by linarith
  with a i have b: "nat ?s + i mod nat c < min (length urls) (nat ?s + nat c)" by simp
  have "run_batch st urls outputDir c opts ?s = map ?g [nat ?s ..< min (length urls) (nat ?s + nat c)]"
    using s0 c by (rule run_batch_wave)
  moreover have "map ?g [nat ?s ..< min (length urls) (nat ?s + nat c)] ! (i mod nat c)
      = ?g (nat ?s + i mod nat c)"
  proof -
    from b have l: "i mod nat c < length [nat ?s ..< min (length urls) (nat ?s + nat c)]"
      by (simp only: length_upt) linarith
    from b have "[nat ?s ..< min (length urls) (nat ?s + nat c)] ! (i mod nat c)
        = nat ?s + i mod nat c"
      by (rule nth_upt)
    with nth_map [OF l, of ?g] show ?thesis by (simp only:)
  qed
  ultimately show "run_batch st urls outputDir c opts ?s ! (i mod nat c)
      = Some (Resolved (Failed (urls ! i) ''Unknown platform''), [])"
    by (simp add: i it)
next
  assume a: "1 \<le> c \<and> i < length urls \<and> detectPlatform (urls ! i) = Unknown
        \<and> settles st urls outputDir opts"
  let ?W = "item_writes st urls outputDir opts"
  from a have c: "0 < c" and s: "settles st urls outputDir opts" by simp_all
  from processInParallel_closed [OF c s] obtain rs where
    run: "processInParallel st urls outputDir c opts =
      Some (Resolved rs, concat (map ?W [0 ..< length urls]), waves (nat c) urls)"
    and nth: "\<forall>k < length urls.
          map_option fst (item st urls outputDir opts k) = Some (Resolved (rs ! k))"
    by blast
  from a have it: "item st urls outputDir opts i = Some (Resolved (Failed (urls ! i) ''Unknown platform''), [])"
    by (simp add: item_def processUrl_unknown)
  with a nth have ri: "rs ! i = Failed (urls ! i) ''Unknown platform''" by auto
  have "(int i, path) \<notin> set (concat (map ?W [0 ..< length urls]))" for path
  proof
    assume "(int i, path) \<in> set (concat (map ?W [0 ..< length urls]))"
    then obtain k where "(int i, path) \<in> set (?W k)" by auto
    with it show False
      by (cases "k = i") (auto simp: item_writes_def split: option.splits)
  qed
  with run ri show "\<exists>rs ws launched.
           processInParallel st urls outputDir c opts = Some (Resolved rs, ws, launched)
           \<and> rs ! i = Failed (urls ! i) ''Unknown platform'' \<and> \<not> success (rs ! i)
           \<and> (\<forall>path. (int i, path) \<notin> set ws)"
    by auto
qed

theorem unknown_platform_no_writes_witness:
  "(1::int) \<le> 2 \<and> 1 < length example_urls \<and> detectPlatform (example_urls ! 1) = Unknown
   \<and> settles (example_stages None image_network) example_urls ''out'' example_options
   \<and> processUrl (example_stages None image_network) (example_urls ! 1) 1 3 ''out'' example_options
       = Some (Resolved (Failed ''https://example.com/post/2'' ''Unknown platform''), [])
   \<and> run_batch (example_stages None image_network) example_urls ''out'' 2 example_options 0 ! 1
       = Some (Resolved (Failed ''https://example.com/post/2'' ''Unknown platform''), [])
   \<and> (\<exists>rs ws launched.
         processInParallel (example_stages None image_network) example_urls ''out'' 2
           example_options = Some (Resolved rs, ws, launched)
         \<and> rs ! 1 = Failed ''https://example.com/post/2'' ''Unknown platform''
         \<and> \<not> success (rs ! 1)
         \<and> (\<forall>path. (1, path) \<notin> set ws))"
proof -
  have u: "example_urls ! Suc 0 = ''https://example.com/post/2''"
    by (simp add: example_urls_def)
  note s = example_settles [of example_urls "''out''" example_options]
  have h: "(1::int) \<le> 2 \<and> 1 < length example_urls \<and> detectPlatform (example_urls ! 1) = Unknown"
    by (simp add: example_urls_def example_platforms)
  have d: "int (1 div nat 2) * 2 = 0" "1 mod nat 2 = Suc 0" by simp_all
  from unknown_platform_no_writes
    [of "example_urls ! 1" "example_stages None image_network" 1 3 "''out''" example_options
       2 1 example_urls] h s
  show ?thesis by (simp add: u d)
qed

section \<open>Properties of the templates\<close>

text \<open>Escaped text contains no angle bracket.\<close>

lemma prefix_diverge:
  assumes "\<not> prefix P A" "\<not> prefix A P"
  shows "\<not> prefix P (A @ B)" "\<not> prefix (A @ B) P"
proof -
  show "\<not> prefix P (A @ B)"
  proof
    assume "prefix P (A @ B)"
    then have "prefix P A \<or> (\<exists>us. P = A @ us \<and> prefix us B)" by (simp add: prefix_append)
    with assms show False by (auto simp: prefix_def)
  qed
  show "\<not> prefix (A @ B) P"
    using assms(2) by (auto simp: prefix_def)
qed

lemma clean_append: "clean P A \<Longrightarrow> clean P B \<Longrightarrow> clean P (A @ B)"
proof (induction A)
  case Nil
  then show ?case by simp
next
  case (Cons a A)
  from Cons.prems have "\<not> prefix P (a # A)" "\<not> prefix (a # A) P" "clean P A" by simp_all
  with prefix_diverge [of P "a # A" B] Cons show ?case by simp
qed

lemma clean_no_hd: "p \<notin> set s \<Longrightarrow> clean (p # ps) s"
  by (induction s) auto

lemma clean_concat: "\<forall>x \<in> set xs. clean P x \<Longrightarrow> clean P (concat xs)"
  by (induction xs) (simp_all add: clean_append)

lemma count_clean: "clean P A \<Longrightarrow> count_occ P (A @ B) = count_occ P B"
proof (induction A)
  case Nil
  show ?case by simp
next
  case (Cons a A)
  from Cons.prems have "\<not> prefix P (a # A)" "\<not> prefix (a # A) P" "clean P A" by simp_all
  with prefix_diverge(1) [of P "a # A" B] Cons.IH show ?case by simp
qed

lemma count_clean_end: "clean P A \<Longrightarrow> count_occ P A = 0"
  using count_clean [of P A "[]"] by simp

lemma set_replaceAll: "set (replaceAll c rep s) \<subseteq> (set s - {c}) \<union> set rep"
  by (induction s) (auto simp: replaceAll_def)

lemma escapeHtml_no_markup: "no_markup (escapeHtml t)"
proof (cases "t = []")
  case True
  then show ?thesis by (simp add: escapeHtml_def no_markup_def)
next
  case False
  let ?a = "replaceAll CHR ''&'' ''&amp;'' t"
  let ?b = "replaceAll CHR ''<'' ''&lt;'' ?a"
  let ?c = "replaceAll CHR ''>'' ''&gt;'' ?b"
  let ?d = "replaceAll (CHR 0x22) ''&quot;'' ?c"
  let ?e = "replaceAll (CHR 0x27) ''&#039;'' ?d"
  have "CHR ''<'' \<notin> set ?b" using set_replaceAll [of "CHR ''<''" "''&lt;''" ?a] by auto
  then have "CHR ''<'' \<notin> set ?c" using set_replaceAll [of "CHR ''>''" "''&gt;''" ?b] by auto
  then have "CHR ''<'' \<notin> set ?d" using set_replaceAll [of "CHR 0x22" "''&quot;''" ?c] by auto
  then have "CHR ''<'' \<notin> set ?e" using set_replaceAll [of "CHR 0x27" "''&#039;''" ?d] by auto
  with False show ?thesis by (simp add: escapeHtml_def no_markup_def)
qed

lemma escapeHtml_no_closing_bracket: "CHR ''>'' \<notin> set (escapeHtml t)"
proof (cases "t = []")
  case True
  then show ?thesis by (simp add: escapeHtml_def)
next
  case False
  let ?b = "replaceAll CHR ''<'' ''&lt;'' (replaceAll CHR ''&'' ''&amp;'' t)"
  let ?c = "replaceAll CHR ''>'' ''&gt;'' ?b"
  let ?d = "replaceAll (CHR 0x22) ''&quot;'' ?c"
  let ?e = "replaceAll (CHR 0x27) ''&#039;'' ?d"
  have "CHR ''>'' \<notin> set ?c" using set_replaceAll [of "CHR ''>''" "''&gt;''" ?b] by auto
  then have "CHR ''>'' \<notin> set ?d" using set_replaceAll [of "CHR 0x22" "''&quot;''" ?c] by auto
  then have "CHR ''>'' \<notin> set ?e" using set_replaceAll [of "CHR 0x27" "''&#039;''" ?d] by auto
  with False show ?thesis by (simp add: escapeHtml_def)
qed

text \<open>
  C1 (the code at the failing input): a forum post whose post number and whose
  reactions text are both \<open><b>7</b>\<close>. The reactions are escaped; the post number is
  interpolated as it is, in the standard and in the bento template.
\<close>

theorem forum_post_number_unescaped:
  "str_includes (renderMacrumorsCard example_css example_time example_forum_post)
     ''<span class=\"post-number\">#<b>7</b></span>''
   \<and> str_includes (renderMacrumorsCard example_css example_time example_forum_post)
     ''<div class=\"reactions\">&lt;b&gt;7&lt;/b&gt;</div>''
   \<and> str_includes (renderBentoMacrumorsCard example_css example_forum_post)
     ''<span class=\"post-number\">#<b>7</b></span>''"
  by code_simp

subsection \<open>Threads\<close>

lemma no_markup_clean: "no_markup s \<Longrightarrow> clean (CHR ''<'' # ps) s"
  by (simp add: no_markup_def clean_no_hd)

lemma thread_imagesHtml_clean:
  assumes "list_all no_markup (images t)"
  shows "clean connector_line (thread_imagesHtml t)" "clean tweet_open (thread_imagesHtml t)"
    "clean tweet_text_open (thread_imagesHtml t)"
proof -
  have i: "clean (CHR ''<'' # ps) img" if "img \<in> set (images t)" for img ps
    using that assms by (auto simp: list_all_iff no_markup_clean)
  show "clean connector_line (thread_imagesHtml t)"
    unfolding thread_imagesHtml_def connector_line_def
    by (auto simp: clean_append clean_concat i)
  show "clean tweet_open (thread_imagesHtml t)"
    unfolding thread_imagesHtml_def tweet_open_def
    by (auto simp: clean_append clean_concat i)
  show "clean tweet_text_open (thread_imagesHtml t)"
    unfolding thread_imagesHtml_def tweet_text_open_def
    by (auto simp: clean_append clean_concat i)
qed

lemma count_connector_line:
  "count_occ ''<div class=\"connector-line\"></div>'' (''<div class=\"connector-line\"></div>'' @ B)
     = 1 + count_occ ''<div class=\"connector-line\"></div>'' B"
  by simp

lemma thread_tweet_connectors:
  assumes "inline_safe t" "no_markup (fmt (timestamp t))"
  shows "count_occ connector_line (thread_tweet fmt n i t @ R)
         = (if int i = int n - 1 then 0 else 1) + count_occ connector_line R"
proof -
  have av: "clean connector_line (the (avatar (author t)))" if "truthy (avatar (author t))"
    using that assms(1) by (auto simp: inline_safe_def truthy_def connector_line_def no_markup_clean split: option.splits)
  have im: "clean connector_line (thread_imagesHtml t)"
    using assms(1) by (simp add: inline_safe_def thread_imagesHtml_clean)
  have e: "clean connector_line (escapeHtml x)" for x
    by (simp add: connector_line_def no_markup_clean escapeHtml_no_markup)
  have f: "clean connector_line (fmt (timestamp t))"
    using assms(2) by (simp add: connector_line_def no_markup_clean)
  note facts = av [unfolded connector_line_def] im [unfolded connector_line_def]
    e [unfolded connector_line_def] f [unfolded connector_line_def]
  show ?thesis
    unfolding thread_tweet_def Let_def connector_line_def
    by (simp add: count_clean count_connector_line facts del: append.simps(2))
qed

lemma bento_thread_imagesHtml_clean:
  assumes "list_all no_markup (images t)"
  shows "clean connector_line (bento_thread_imagesHtml t)"
    "clean tweet_open (bento_thread_imagesHtml t)"
    "clean tweet_text_open (bento_thread_imagesHtml t)"
proof -
  have i: "clean (CHR ''<'' # ps) img" if "img \<in> set (images t)" for img ps
    using that assms by (auto simp: list_all_iff no_markup_clean)
  show "clean connector_line (bento_thread_imagesHtml t)"
    unfolding bento_thread_imagesHtml_def connector_line_def
    by (auto simp: clean_append clean_concat i)
  show "clean tweet_open (bento_thread_imagesHtml t)"
    unfolding bento_thread_imagesHtml_def tweet_open_def
    by (auto simp: clean_append clean_concat i)
  show "clean tweet_text_open (bento_thread_imagesHtml t)"
    unfolding bento_thread_imagesHtml_def tweet_text_open_def
    by (auto simp: clean_append clean_concat i)
qed

lemma count_tweet_open:
  "count_occ ''<div class=\"tweet-connector\">''
     (''\<newline>        <div class=\"tweet-connector\">'' @ B)
     = 1 + count_occ ''<div class=\"tweet-connector\">'' B"
  by simp

lemma safe_pieces:
  assumes "inline_safe t"
  shows "truthy (avatar (author t)) \<Longrightarrow> clean (CHR ''<'' # ps) (the (avatar (author t)))"
    and "clean (CHR ''<'' # ps) (escapeHtml x)"
    and "no_markup s \<Longrightarrow> clean (CHR ''<'' # ps) s"
  using assms
  by (auto simp: inline_safe_def truthy_def no_markup_clean escapeHtml_no_markup
      split: option.splits)

lemma thread_tweet_opens:
  assumes "inline_safe t" "no_markup (fmt (timestamp t))"
  shows "count_occ tweet_open (thread_tweet fmt n i t @ R) = 1 + count_occ tweet_open R"
proof -
  have im: "clean tweet_open (thread_imagesHtml t)"
    using assms(1) by (simp add: inline_safe_def thread_imagesHtml_clean)
  note facts = safe_pieces [OF assms(1)] im [unfolded tweet_open_def] assms(2)
  show ?thesis
    unfolding thread_tweet_def Let_def connector_line_def tweet_open_def
    by (simp add: count_clean count_tweet_open facts del: append.simps(2))
qed

lemma bento_thread_tweet_connectors:
  assumes "inline_safe t"
  shows "count_occ connector_line (bento_thread_tweet n i t @ R)
         = (if int i = int n - 1 then 0 else 1) + count_occ connector_line R"
proof -
  have im: "clean connector_line (bento_thread_imagesHtml t)"
    using assms(1) by (simp add: inline_safe_def bento_thread_imagesHtml_clean)
  note facts = safe_pieces [OF assms(1)] im [unfolded connector_line_def]
  show ?thesis
    unfolding bento_thread_tweet_def Let_def connector_line_def
    by (simp add: count_clean count_connector_line facts del: append.simps(2))
qed

lemma bento_thread_tweet_opens:
  assumes "inline_safe t"
  shows "count_occ tweet_open (bento_thread_tweet n i t @ R) = 1 + count_occ tweet_open R"
proof -
  have im: "clean tweet_open (bento_thread_imagesHtml t)"
    using assms(1) by (simp add: inline_safe_def bento_thread_imagesHtml_clean)
  note facts = safe_pieces [OF assms(1)] im [unfolded tweet_open_def]
  show ?thesis
    unfolding bento_thread_tweet_def Let_def connector_line_def tweet_open_def
    by (simp add: count_clean count_tweet_open facts del: append.simps(2))
qed

lemma blocks_count:
  assumes "\<And>i t R. (i, t) \<in> set zs \<Longrightarrow> count_occ P (block i t @ R) = k i + count_occ P R"
  shows "count_occ P (concat (map (\<lambda>(i, t). block i t) zs) @ R)
         = sum_list (map (\<lambda>(i, t). k i) zs) + count_occ P R"
  using assms
proof (induction zs)
  case Nil
  show ?case by simp
next
  case (Cons z zs)
  obtain i t where z: "z = (i, t)" by (cases z)
  have "count_occ P (block i t @ (concat (map (\<lambda>(i, t). block i t) zs) @ R))
      = k i + count_occ P (concat (map (\<lambda>(i, t). block i t) zs) @ R)"
    using Cons.prems [of i t] z by simp
  moreover have "count_occ P (concat (map (\<lambda>(i, t). block i t) zs) @ R)
      = sum_list (map (\<lambda>(i, t). k i) zs) + count_occ P R"
    using Cons.prems by (intro Cons.IH) simp
  ultimately show ?case by (simp add: z)
qed

lemma zip_index: "map (\<lambda>(i, t). f i t) (zip [0..<length ts] ts) = map (\<lambda>i. f i (ts ! i)) [0..<length ts]"
  by (rule nth_equalityI) simp_all

lemma sum_indexed: "sum_list (map (\<lambda>(i, t). k i) (zip [0..<length ts] ts)) = sum_list (map k [0..<length ts])"
  using zip_index [of "\<lambda>i t. k i" ts] by simp

lemma sum_ones: "sum_list (map (\<lambda>i. 1) [0..<n]) = n"
  by (induction n) simp_all

lemma sum_all_but_last:
  "sum_list (map (\<lambda>i. if int i = int n - 1 then 0 else 1) [0..<n]) = n - 1"
proof (cases n)
  case 0
  then show ?thesis by simp
next
  case (Suc m)
  have "map (\<lambda>i. if int i = int (Suc m) - 1 then 0 else (1::nat)) [0..<m] = map (\<lambda>i. 1) [0..<m]"
    by (rule map_cong) auto
  then have "sum_list (map (\<lambda>i. if int i = int (Suc m) - 1 then 0 else (1::nat)) [0..<m]) = m"
    by (simp only: sum_ones)
  with Suc show ?thesis by simp
qed

lemma thread_tweetsHtml_blocks:
  "thread_tweetsHtml fmt tweets =
     concat (map (\<lambda>i. thread_tweet fmt (length tweets) i (tweets ! i)) [0..<length tweets])"
  "bento_thread_tweetsHtml tweets =
     concat (map (\<lambda>i. bento_thread_tweet (length tweets) i (tweets ! i)) [0..<length tweets])"
  unfolding thread_tweetsHtml_def bento_thread_tweetsHtml_def
  by (simp_all only: zip_index)

lemma thread_tweetsHtml_counts:
  assumes "\<forall>t \<in> set tweets. inline_safe t \<and> no_markup (fmt (timestamp t))"
  shows "count_occ connector_line (thread_tweetsHtml fmt tweets @ R)
           = (length tweets - 1) + count_occ connector_line R"
    and "count_occ tweet_open (thread_tweetsHtml fmt tweets @ R)
           = length tweets + count_occ tweet_open R"
proof -
  let ?zs = "zip [0..<length tweets] tweets"
  have safe: "inline_safe t \<and> no_markup (fmt (timestamp t))" if "(i, t) \<in> set ?zs" for i t
    using that assms by (auto dest: set_zip_rightD)
  have "count_occ connector_line
          (concat (map (\<lambda>(i, t). thread_tweet fmt (length tweets) i t) ?zs) @ R)
        = sum_list (map (\<lambda>(i, t). if int i = int (length tweets) - 1 then 0 else 1) ?zs)
          + count_occ connector_line R"
    by (rule blocks_count) (simp add: safe thread_tweet_connectors)
  then show "count_occ connector_line (thread_tweetsHtml fmt tweets @ R)
           = (length tweets - 1) + count_occ connector_line R"
    by (simp only: thread_tweetsHtml_def sum_indexed sum_all_but_last)
  have "count_occ tweet_open
          (concat (map (\<lambda>(i, t). thread_tweet fmt (length tweets) i t) ?zs) @ R)
        = sum_list (map (\<lambda>(i, t). 1) ?zs) + count_occ tweet_open R"
    by (rule blocks_count) (simp add: safe thread_tweet_opens)
  then show "count_occ tweet_open (thread_tweetsHtml fmt tweets @ R)
           = length tweets + count_occ tweet_open R"
    by (simp only: thread_tweetsHtml_def sum_indexed sum_ones)
qed

lemma bento_thread_tweetsHtml_counts:
  assumes "\<forall>t \<in> set tweets. inline_safe t"
  shows "count_occ connector_line (bento_thread_tweetsHtml tweets @ R)
           = (length tweets - 1) + count_occ connector_line R"
    and "count_occ tweet_open (bento_thread_tweetsHtml tweets @ R)
           = length tweets + count_occ tweet_open R"
proof -
  let ?zs = "zip [0..<length tweets] tweets"
  have safe: "inline_safe t" if "(i, t) \<in> set ?zs" for i t
    using that assms by (auto dest: set_zip_rightD)
  have "count_occ connector_line
          (concat (map (\<lambda>(i, t). bento_thread_tweet (length tweets) i t) ?zs) @ R)
        = sum_list (map (\<lambda>(i, t). if int i = int (length tweets) - 1 then 0 else 1) ?zs)
          + count_occ connector_line R"
    by (rule blocks_count) (simp add: safe bento_thread_tweet_connectors)
  then show "count_occ connector_line (bento_thread_tweetsHtml tweets @ R)
           = (length tweets - 1) + count_occ connector_line R"
    by (simp only: bento_thread_tweetsHtml_def sum_indexed sum_all_but_last)
  have "count_occ tweet_open
          (concat (map (\<lambda>(i, t). bento_thread_tweet (length tweets) i t) ?zs) @ R)
        = sum_list (map (\<lambda>(i, t). 1) ?zs) + count_occ tweet_open R"
    by (rule blocks_count) (simp add: safe bento_thread_tweet_opens)
  then show "count_occ tweet_open (bento_thread_tweetsHtml tweets @ R)
           = length tweets + count_occ tweet_open R"
    by (simp only: bento_thread_tweetsHtml_def sum_indexed sum_ones)
qed

lemma renderTwitterThreadCard_counts:
  assumes "no_markup css" "\<forall>t \<in> set tweets. inline_safe t \<and> no_markup (fmt (timestamp t))"
  shows "count_occ connector_line (renderTwitterThreadCard css fmt tweets) = length tweets - 1"
    and "count_occ tweet_open (renderTwitterThreadCard css fmt tweets) = length tweets"
proof -
  have c: "clean (CHR ''<'' # ps) css" for ps
    using assms(1) by (rule no_markup_clean)
  note th = thread_tweetsHtml_counts [OF assms(2)]
  show "count_occ connector_line (renderTwitterThreadCard css fmt tweets) = length tweets - 1"
    unfolding renderTwitterThreadCard_def
    by (simp add: count_clean c th(1) [unfolded connector_line_def] connector_line_def
        del: append.simps(2))
  show "count_occ tweet_open (renderTwitterThreadCard css fmt tweets) = length tweets"
    unfolding renderTwitterThreadCard_def
    by (simp add: count_clean c th(2) [unfolded tweet_open_def] tweet_open_def
        del: append.simps(2))
qed

lemma renderBentoTwitterThreadCard_counts:
  assumes "no_markup css" "\<forall>t \<in> set tweets. inline_safe t"
  shows "count_occ connector_line (renderBentoTwitterThreadCard css tweets) = length tweets - 1"
    and "count_occ tweet_open (renderBentoTwitterThreadCard css tweets) = length tweets"
proof -
  have c: "clean (CHR ''<'' # ps) css" for ps
    using assms(1) by (rule no_markup_clean)
  note th = bento_thread_tweetsHtml_counts [OF assms(2)]
  show "count_occ connector_line (renderBentoTwitterThreadCard css tweets) = length tweets - 1"
    unfolding renderBentoTwitterThreadCard_def
    by (simp add: count_clean c th(1) [unfolded connector_line_def] connector_line_def
        del: append.simps(2))
  show "count_occ tweet_open (renderBentoTwitterThreadCard css tweets) = length tweets"
    unfolding renderBentoTwitterThreadCard_def
    by (simp add: count_clean c th(2) [unfolded tweet_open_def] tweet_open_def
        del: append.simps(2))
qed

lemma count_tweet_text_open:
  "count_occ ''<div class=\"tweet-text\">'' (''\<newline>          <div class=\"tweet-text\">'' @ B)
     = 1 + count_occ ''<div class=\"tweet-text\">'' B"
  by simp

lemma thread_tweet_texts:
  assumes "inline_safe t" "no_markup (fmt (timestamp t))"
  shows "count_occ tweet_text_open (thread_tweet fmt n i t @ R) = 1 + count_occ tweet_text_open R"
proof -
  have im: "clean tweet_text_open (thread_imagesHtml t)"
    using assms(1) by (simp add: inline_safe_def thread_imagesHtml_clean)
  note facts = safe_pieces [OF assms(1)] im [unfolded tweet_text_open_def] assms(2)
  show ?thesis
    unfolding thread_tweet_def Let_def connector_line_def tweet_text_open_def
    by (simp add: count_clean count_tweet_text_open facts del: append.simps(2))
qed

lemma bento_thread_tweet_texts:
  assumes "inline_safe t"
  shows "count_occ tweet_text_open (bento_thread_tweet n i t @ R) = 1 + count_occ tweet_text_open R"
proof -
  have im: "clean tweet_text_open (bento_thread_imagesHtml t)"
    using assms(1) by (simp add: inline_safe_def bento_thread_imagesHtml_clean)
  note facts = safe_pieces [OF assms(1)] im [unfolded tweet_text_open_def]
  show ?thesis
    unfolding bento_thread_tweet_def Let_def connector_line_def tweet_text_open_def
    by (simp add: count_clean count_tweet_text_open facts del: append.simps(2))
qed

subsection \<open>What a block shows\<close>

lemma str_includes_iff: "str_includes s pat \<longleftrightarrow> (\<exists>a b. s = a @ pat @ b)"
proof (induction s)
  case Nil
  show ?case by simp
next
  case (Cons c cs)
  show ?case
  proof
    assume "str_includes (c # cs) pat"
    then consider "prefix pat (c # cs)" | "str_includes cs pat" by auto
    then show "\<exists>a b. c # cs = a @ pat @ b"
    proof cases
      case 1
      then obtain b where "c # cs = [] @ pat @ b" by (auto simp: prefix_def)
      then show ?thesis by blast
    next
      case 2
      with Cons.IH obtain a b where "cs = a @ pat @ b" by blast
      then have "c # cs = (c # a) @ pat @ b" by simp
      then show ?thesis by blast
    qed
  next
    assume "\<exists>a b. c # cs = a @ pat @ b"
    then obtain a b where e: "c # cs = a @ pat @ b" by blast
    show "str_includes (c # cs) pat"
    proof (cases "a = []")
      case True
      with e have "prefix pat (c # cs)" by (simp add: prefix_def)
      then show ?thesis by simp
    next
      case False
      with e obtain a' where "cs = a' @ pat @ b" by (cases a) auto
      with Cons.IH have "str_includes cs pat" by blast
      then show ?thesis by simp
    qed
  qed
qed

lemma incl_here: "str_includes (p @ R) p"
  unfolding str_includes_iff by (rule exI [of _ "[]"]) simp

lemma incl_skip: "str_includes B p \<Longrightarrow> str_includes (A @ B) p"
  unfolding str_includes_iff by (metis append.assoc)

lemma incl_mid: "L = l @ a \<Longrightarrow> str_includes (L @ E @ c @ R) (a @ E @ c)"
  unfolding str_includes_iff by (intro exI [of _ l] exI [of _ R]) simp

lemma incl_trans: "str_includes s t \<Longrightarrow> str_includes t u \<Longrightarrow> str_includes s u"
  unfolding str_includes_iff by (metis append.assoc)

lemma incl_concat_map: "x \<in> set xs \<Longrightarrow> str_includes (concat (map f xs) @ R) (f x)"
proof -
  assume "x \<in> set xs"
  then obtain ys zs where "xs = ys @ x # zs" by (auto dest: split_list)
  then have "concat (map f xs) @ R = concat (map f ys) @ f x @ (concat (map f zs) @ R)"
    by simp
  then show ?thesis unfolding str_includes_iff by blast
qed

lemma thread_imagesHtml_shows:
  assumes "img \<in> set (images t)"
  shows "str_includes (thread_imagesHtml t) (tweet_image img)"
    and "str_includes (bento_thread_imagesHtml t) (tweet_image img)"
proof -
  from assms have p: "0 < length (images t)" by (cases "images t") auto
  note here = incl_concat_map [of img "images t"
      "\<lambda>img. ''<img src=\"'' @ img @ ''\" alt=\"Tweet image\">''", OF assms]
  show "str_includes (thread_imagesHtml t) (tweet_image img)"
    unfolding thread_imagesHtml_def tweet_image_def if_P [OF p]
    by (rule here | rule incl_skip)+
  show "str_includes (bento_thread_imagesHtml t) (tweet_image img)"
    unfolding bento_thread_imagesHtml_def tweet_image_def if_P [OF p]
    by (rule here | rule incl_skip)+
qed

lemma thread_tweet_includes:
  "str_includes (thread_tweet fmt n i t) (tweet_name t)"
  "str_includes (thread_tweet fmt n i t) (tweet_handle t)"
  "str_includes (thread_tweet fmt n i t) (tweet_text t)"
  "str_includes (thread_tweet fmt n i t) (thread_imagesHtml t)"
proof -
  show "str_includes (thread_tweet fmt n i t) (tweet_name t)"
    unfolding thread_tweet_def Let_def tweet_name_def
    by ((rule incl_mid [where l = "''\<newline>            ''"], simp) | rule incl_skip)+
  show "str_includes (thread_tweet fmt n i t) (tweet_handle t)"
    unfolding thread_tweet_def Let_def tweet_handle_def
    by ((rule incl_mid [where l = "''\<newline>            ''"], simp) | rule incl_skip)+
  show "str_includes (thread_tweet fmt n i t) (tweet_text t)"
    unfolding thread_tweet_def Let_def tweet_text_def tweet_text_open_def
    by ((rule incl_mid [where l = "''\<newline>          ''"], simp) | rule incl_skip)+
  show "str_includes (thread_tweet fmt n i t) (thread_imagesHtml t)"
    unfolding thread_tweet_def Let_def
    by (rule incl_here | rule incl_skip)+
qed

lemma bento_thread_tweet_includes:
  "str_includes (bento_thread_tweet n i t) (tweet_name t)"
  "str_includes (bento_thread_tweet n i t) (tweet_handle t)"
  "str_includes (bento_thread_tweet n i t) (tweet_text t)"
  "str_includes (bento_thread_tweet n i t) (bento_thread_imagesHtml t)"
proof -
  show "str_includes (bento_thread_tweet n i t) (tweet_name t)"
    unfolding bento_thread_tweet_def Let_def tweet_name_def
    by ((rule incl_mid [where l = "''\<newline>            ''"], simp) | rule incl_skip)+
  show "str_includes (bento_thread_tweet n i t) (tweet_handle t)"
    unfolding bento_thread_tweet_def Let_def tweet_handle_def
    by ((rule incl_mid [where l = "''\<newline>            ''"], simp) | rule incl_skip)+
  show "str_includes (bento_thread_tweet n i t) (tweet_text t)"
    unfolding bento_thread_tweet_def Let_def tweet_text_def tweet_text_open_def
    by ((rule incl_mid [where l = "''\<newline>          ''"], simp) | rule incl_skip)+
  show "str_includes (bento_thread_tweet n i t) (bento_thread_imagesHtml t)"
    unfolding bento_thread_tweet_def Let_def
    by (rule incl_here | rule incl_skip)+
qed

lemma thread_tweet_shows_post:
  assumes "inline_safe t" "no_markup (fmt (timestamp t))"
  shows "shows_post (thread_tweet fmt n i t) t"
proof -
  have "count_occ tweet_open (thread_tweet fmt n i t @ []) = 1 + count_occ tweet_open []"
    using assms by (rule thread_tweet_opens)
  moreover have "count_occ tweet_text_open (thread_tweet fmt n i t @ [])
      = 1 + count_occ tweet_text_open []"
    using assms by (rule thread_tweet_texts)
  moreover have "str_includes (thread_tweet fmt n i t) (tweet_image img)"
    if "img \<in> set (images t)" for img
    using thread_tweet_includes(4) thread_imagesHtml_shows(1) [OF that] by (rule incl_trans)
  ultimately show ?thesis
    by (simp add: shows_post_def thread_tweet_includes list_all_iff)
qed

lemma bento_thread_tweet_shows_post:
  assumes "inline_safe t"
  shows "shows_post (bento_thread_tweet n i t) t"
proof -
  have "count_occ tweet_open (bento_thread_tweet n i t @ []) = 1 + count_occ tweet_open []"
    using assms by (rule bento_thread_tweet_opens)
  moreover have "count_occ tweet_text_open (bento_thread_tweet n i t @ [])
      = 1 + count_occ tweet_text_open []"
    using assms by (rule bento_thread_tweet_texts)
  moreover have "str_includes (bento_thread_tweet n i t) (tweet_image img)"
    if "img \<in> set (images t)" for img
    using bento_thread_tweet_includes(4) thread_imagesHtml_shows(2) [OF that] by (rule incl_trans)
  ultimately show ?thesis
    by (simp add: shows_post_def bento_thread_tweet_includes list_all_iff)
qed

lemma document_includes_blocks:
  "str_includes (renderTwitterThreadCard css fmt tweets) (thread_tweetsHtml fmt tweets)"
  "str_includes (renderBentoTwitterThreadCard css tweets) (bento_thread_tweetsHtml tweets)"
  unfolding renderTwitterThreadCard_def renderBentoTwitterThreadCard_def
  by ((rule incl_here | rule incl_skip)+)+

lemma show_nat_no_markup: "CHR ''<'' \<notin> set (show_nat n)"
  using show_nat_digits [of "CHR ''<''" n] by (auto simp: is_digit_def)

lemma css_no_markup: "no_markup thread_css" "no_markup bento_thread_css"
  unfolding thread_css_def bento_thread_css_def no_markup_def
  by (simp_all add: show_nat_no_markup)

lemma connectors_outside_style:
  assumes "no_markup css"
  shows "count_occ connector_line (renderTwitterThreadCard css fmt tweets)
           = count_occ connector_line (renderTwitterThreadCard [] fmt tweets)"
    and "count_occ connector_line (renderBentoTwitterThreadCard css tweets)
           = count_occ connector_line (renderBentoTwitterThreadCard [] tweets)"
proof -
  have c: "clean (CHR ''<'' # ps) css" for ps
    using assms by (rule no_markup_clean)
  show "count_occ connector_line (renderTwitterThreadCard css fmt tweets)
           = count_occ connector_line (renderTwitterThreadCard [] fmt tweets)"
    unfolding renderTwitterThreadCard_def connector_line_def
    by (simp add: count_clean c del: append.simps(2))
  show "count_occ connector_line (renderBentoTwitterThreadCard css tweets)
           = count_occ connector_line (renderBentoTwitterThreadCard [] tweets)"
    unfolding renderBentoTwitterThreadCard_def connector_line_def
    by (simp add: count_clean c del: append.simps(2))
qed

text \<open>
  C9 (as stated): the inline images of a payload are the data URIs that \<open>imageToBase64\<close>
  builds from the \<open>content-type\<close> header of the image server, and the templates write
  them into the \<open>src\<close> attribute as they are. A header that closes the attribute gives a
  thread of one post whose document, standard or bento, holds one connector line, where
  the claim has none.
\<close>

theorem thread_connector_injected:
  "map_option fst (imageToBase64 injecting_network toString_base64
       (Some ''https://pbs.twimg.com/media/a.png'') no_io)
     = Some (Resolved (Some injected_uri))
   \<and> map images injected_thread = [[injected_uri]]
   \<and> length injected_thread - 1 = 0
   \<and> count_occ connector_line
        (renderTwitterThreadCard thread_css example_time injected_thread) = 1
   \<and> count_occ connector_line
        (renderBentoTwitterThreadCard bento_thread_css injected_thread) = 1"
proof -
  have "toString_base64 ''PNG'' = ''UE5H''" by (simp add: base64_digit_def)
  then have "map_option fst (imageToBase64 injecting_network toString_base64
       (Some ''https://pbs.twimg.com/media/a.png'') no_io)
     = Some (Resolved (Some injected_uri))"
    by (simp add: imageToBase64.simps injecting_network_def example_response_def is_redirect_def
        data_uri_def truthy_def injected_uri_def del: toString_base64.simps)
  moreover have "map images injected_thread = [[injected_uri]]"
    by (simp add: injected_thread_def)
  moreover have "length injected_thread - 1 = 0"
    by (simp add: injected_thread_def)
  moreover have "count_occ connector_line
        (renderTwitterThreadCard [] example_time injected_thread) = 1"
    by code_simp
  then have "count_occ connector_line
        (renderTwitterThreadCard thread_css example_time injected_thread) = 1"
    by (simp only: connectors_outside_style [OF css_no_markup(1)])
  moreover have "count_occ connector_line (renderBentoTwitterThreadCard [] injected_thread) = 1"
    by code_simp
  then have "count_occ connector_line
        (renderBentoTwitterThreadCard bento_thread_css injected_thread) = 1"
    by (simp only: connectors_outside_style [OF css_no_markup(2)])
  ultimately show ?thesis by (simp only: simp_thms)
qed

text \<open>
  C9 (amended): for a thread of \<open>n \<ge> 1\<close> posts whose inline images and avatars (data
  URIs) contain no \<open><\<close>, the document, standard or bento, under the style sheet of its
  template, contains \<open>tweetsHtml\<close>, which is the concatenation of one block per post in
  the order of the payload; the \<open>i\<close>-th block has one left column and one text element
  and shows the escaped name, handle and text and the inline images of the \<open>i\<close>-th post,
  and it holds the connector line unless it is the last; the document holds exactly \<open>n\<close>
  left columns and exactly \<open>n - 1\<close> connector lines. Occurrences are counted in the text
  of the document; escaped text opens no element, and the formatted time (\<open>just now\<close>, a
  number with its unit, or a date of the locale) is taken to contain no \<open><\<close>.
\<close>

theorem thread_blocks_in_order:
  assumes "tweets \<noteq> []"
    and "\<forall>t \<in> set tweets. inline_safe t \<and> no_markup (fmt (timestamp t))"
  shows "thread_tweetsHtml fmt tweets =
           concat (map (\<lambda>i. thread_tweet fmt (length tweets) i (tweets ! i)) [0..<length tweets])
     \<and> bento_thread_tweetsHtml tweets =
           concat (map (\<lambda>i. bento_thread_tweet (length tweets) i (tweets ! i)) [0..<length tweets])
     \<and> str_includes (renderTwitterThreadCard thread_css fmt tweets) (thread_tweetsHtml fmt tweets)
     \<and> str_includes (renderBentoTwitterThreadCard bento_thread_css tweets) (bento_thread_tweetsHtml tweets)
     \<and> (\<forall>i < length tweets.
           shows_post (thread_tweet fmt (length tweets) i (tweets ! i)) (tweets ! i)
         \<and> shows_post (bento_thread_tweet (length tweets) i (tweets ! i)) (tweets ! i)
         \<and> count_occ connector_line (thread_tweet fmt (length tweets) i (tweets ! i))
             = (if i = length tweets - 1 then 0 else 1)
         \<and> count_occ connector_line (bento_thread_tweet (length tweets) i (tweets ! i))
             = (if i = length tweets - 1 then 0 else 1))
     \<and> count_occ tweet_open (renderTwitterThreadCard thread_css fmt tweets) = length tweets
     \<and> count_occ connector_line (renderTwitterThreadCard thread_css fmt tweets) = length tweets - 1
     \<and> count_occ tweet_open (renderBentoTwitterThreadCard bento_thread_css tweets) = length tweets
     \<and> count_occ connector_line (renderBentoTwitterThreadCard bento_thread_css tweets) = length tweets - 1"
proof -
  from assms(2) have safe: "\<forall>t \<in> set tweets. inline_safe t" by simp
  have last: "(int i = int (length tweets) - 1) = (i = length tweets - 1)" for i
    using assms(1) by (cases tweets) auto
  have blocks: "shows_post (thread_tweet fmt (length tweets) i (tweets ! i)) (tweets ! i)
         \<and> shows_post (bento_thread_tweet (length tweets) i (tweets ! i)) (tweets ! i)
         \<and> count_occ connector_line (thread_tweet fmt (length tweets) i (tweets ! i))
             = (if i = length tweets - 1 then 0 else 1)
         \<and> count_occ connector_line (bento_thread_tweet (length tweets) i (tweets ! i))
             = (if i = length tweets - 1 then 0 else 1)" if "i < length tweets" for i
  proof -
    from that assms(2) have t: "inline_safe (tweets ! i)" "no_markup (fmt (timestamp (tweets ! i)))"
      by simp_all
    have "count_occ connector_line (thread_tweet fmt (length tweets) i (tweets ! i) @ [])
        = (if int i = int (length tweets) - 1 then 0 else 1) + count_occ connector_line []"
      using t by (rule thread_tweet_connectors)
    moreover have "count_occ connector_line (bento_thread_tweet (length tweets) i (tweets ! i) @ [])
        = (if int i = int (length tweets) - 1 then 0 else 1) + count_occ connector_line []"
      using t(1) by (rule bento_thread_tweet_connectors)
    moreover have "shows_post (thread_tweet fmt (length tweets) i (tweets ! i)) (tweets ! i)"
      using t by (rule thread_tweet_shows_post)
    moreover have "shows_post (bento_thread_tweet (length tweets) i (tweets ! i)) (tweets ! i)"
      using t(1) by (rule bento_thread_tweet_shows_post)
    ultimately show ?thesis by (simp add: last)
  qed
  from thread_tweetsHtml_blocks blocks document_includes_blocks
    renderTwitterThreadCard_counts [OF css_no_markup(1) assms(2)]
    renderBentoTwitterThreadCard_counts [OF css_no_markup(2) safe]
  show ?thesis by simp
qed

theorem thread_blocks_in_order_witness:
  "example_thread \<noteq> []
   \<and> list_all (\<lambda>t. inline_safe t \<and> no_markup (example_time (timestamp t))) example_thread
   \<and> length example_thread = 3
   \<and> shows_post (thread_tweet example_time 3 0 (example_thread ! 0)) (example_thread ! 0)
   \<and> shows_post (thread_tweet example_time 3 1 (example_thread ! 1)) (example_thread ! 1)
   \<and> shows_post (thread_tweet example_time 3 2 (example_thread ! 2)) (example_thread ! 2)
   \<and> shows_post (bento_thread_tweet 3 0 (example_thread ! 0)) (example_thread ! 0)
   \<and> shows_post (bento_thread_tweet 3 1 (example_thread ! 1)) (example_thread ! 1)
   \<and> shows_post (bento_thread_tweet 3 2 (example_thread ! 2)) (example_thread ! 2)
   \<and> tweet_text (example_thread ! 0) = ''<div class=\"tweet-text\">first &lt;post&gt;</div>''
   \<and> tweet_image (hd (images (example_thread ! 0)))
       = ''<img src=\"data:image/png;base64,UE5H\" alt=\"Tweet image\">''
   \<and> count_occ tweet_open (renderTwitterThreadCard thread_css example_time example_thread) = 3
   \<and> count_occ connector_line (renderTwitterThreadCard thread_css example_time example_thread) = 2
   \<and> count_occ tweet_open (renderBentoTwitterThreadCard bento_thread_css example_thread) = 3
   \<and> count_occ connector_line (renderBentoTwitterThreadCard bento_thread_css example_thread) = 2"
proof -
  have h1: "example_thread \<noteq> []" by (simp add: example_thread_def)
  have h3: "\<forall>t \<in> set example_thread. inline_safe t \<and> no_markup (example_time (timestamp t))"
    by (simp add: example_thread_def example_tweet_def example_author_def inline_safe_def
        no_markup_def example_time_def)
  have len: "length example_thread = 3" by (simp add: example_thread_def)
  from h3 have h3': "list_all (\<lambda>t. inline_safe t \<and> no_markup (example_time (timestamp t))) example_thread"
    by (simp only: list_all_iff)
  have tx: "tweet_text (example_thread ! 0) = ''<div class=\"tweet-text\">first &lt;post&gt;</div>''"
    "tweet_image (hd (images (example_thread ! 0)))
       = ''<img src=\"data:image/png;base64,UE5H\" alt=\"Tweet image\">''"
    by code_simp+
  note inst = thread_blocks_in_order [OF h1 h3, unfolded len]
  from inst have b: "\<forall>i < 3.
           shows_post (thread_tweet example_time 3 i (example_thread ! i)) (example_thread ! i)
         \<and> shows_post (bento_thread_tweet 3 i (example_thread ! i)) (example_thread ! i)"
    by simp
  from b have "shows_post (thread_tweet example_time 3 0 (example_thread ! 0)) (example_thread ! 0)"
    "shows_post (thread_tweet example_time 3 1 (example_thread ! 1)) (example_thread ! 1)"
    "shows_post (thread_tweet example_time 3 2 (example_thread ! 2)) (example_thread ! 2)"
    "shows_post (bento_thread_tweet 3 0 (example_thread ! 0)) (example_thread ! 0)"
    "shows_post (bento_thread_tweet 3 1 (example_thread ! 1)) (example_thread ! 1)"
    "shows_post (bento_thread_tweet 3 2 (example_thread ! 2)) (example_thread ! 2)"
    by simp_all
  with inst h1 h3' len tx show ?thesis by simp
qed

end
